theory Spec2Isabelle
  imports Complex_Main "HOL-Library.List_Lexorder" "HOL-Library.Product_Lexorder"
    "HOL-Library.Multiset"
begin

section \<open>JavaScript values used by the health checker\<close>

text \<open>
  A JavaScript string is a sequence of UTF-16 code units; \<open>length\<close>, \<open>slice\<close>,
  \<open>startsWith\<close> and \<open>split\<close> count code units. A string is therefore a list of
  code units (natural numbers), and \<open>lit\<close> turns an ASCII literal into one. The Chinese
  literals of the source are written as their code units, with a gloss beside them.
\<close>

type_synonym js_string = "nat list"

definition lit :: "string \<Rightarrow> js_string" where
  "lit s = map of_char s"

text \<open>\<open>s.startsWith(p)\<close>, \<open>s.endsWith(p)\<close>, \<open>s.includes(p)\<close>.\<close>

definition startsWith :: "js_string \<Rightarrow> js_string \<Rightarrow> bool" where
  "startsWith s p = (take (length p) s = p)"

definition endsWith :: "js_string \<Rightarrow> js_string \<Rightarrow> bool" where
  "endsWith s p = (length p \<le> length s \<and> drop (length s - length p) s = p)"

fun js_includes :: "js_string \<Rightarrow> js_string \<Rightarrow> bool" where
  "js_includes [] p = (p = [])"
| "js_includes (c # cs) p = (startsWith (c # cs) p \<or> js_includes cs p)"

text \<open>\<open>s.split("\n")\<close>: the result always has at least one element.\<close>

fun split_nl :: "js_string \<Rightarrow> js_string list" where
  "split_nl [] = [[]]"
| "split_nl (c # cs) =
     (if c = 10 then [] # split_nl cs
      else (case split_nl cs of [] \<Rightarrow> [[c]] | l # ls \<Rightarrow> (c # l) # ls))"

text \<open>
  \<open>s.trim()\<close> strips white space and line terminators (ECMAScript WhiteSpace and
  LineTerminator) at both ends.
\<close>

definition js_whitespace :: "nat \<Rightarrow> bool" where
  "js_whitespace c =
     (c = 0x09 \<or> c = 0x0A \<or> c = 0x0B \<or> c = 0x0C \<or> c = 0x0D \<or> c = 0x20 \<or> c = 0xA0
      \<or> c = 0x1680 \<or> (0x2000 \<le> c \<and> c \<le> 0x200A) \<or> c = 0x2028 \<or> c = 0x2029
      \<or> c = 0x202F \<or> c = 0x205F \<or> c = 0x3000 \<or> c = 0xFEFF)"

definition trim :: "js_string \<Rightarrow> js_string" where
  "trim s = rev (dropWhile js_whitespace (rev (dropWhile js_whitespace s)))"

text \<open>Decimal text of an integer, as a template literal prints a number.\<close>

fun show_nat :: "nat \<Rightarrow> js_string" where
  "show_nat n = (if n < 10 then [48 + n] else show_nat (n div 10) @ [48 + n mod 10])"

declare show_nat.simps [simp del]

definition show_int :: "int \<Rightarrow> js_string" where
  "show_int i = (if i < 0 then 45 # show_nat (nat (- i)) else show_nat (nat i))"

text \<open>
  Values: what \<open>JSON.parse\<close> returns, and \<open>undefined\<close> for a missing property.
  An object is its list of own properties.
\<close>

datatype jsval =
    JUndefined
  | JNull
  | JBool bool
  | JNum rat
  | JStr js_string
  | JArr "jsval list"
  | JObj "(js_string \<times> jsval) list"

fun truthy :: "jsval \<Rightarrow> bool" where
  "truthy JUndefined = False"
| "truthy JNull = False"
| "truthy (JBool b) = b"
| "truthy (JNum q) = (q \<noteq> 0)"
| "truthy (JStr s) = (s \<noteq> [])"
| "truthy (JArr xs) = True"
| "truthy (JObj kvs) = True"

text \<open>\<open>a || b\<close>.\<close>

definition js_or :: "jsval \<Rightarrow> jsval \<Rightarrow> jsval" where
  "js_or a b = (if truthy a then a else b)"

text \<open>An exception: the \<open>name\<close> and \<open>message\<close> of the thrown error.\<close>

datatype js_error = JsError (err_name: js_string) (err_message: js_string)

definition TypeError :: js_error where
  "TypeError = JsError (lit ''TypeError'') (lit ''Cannot read properties'')"

text \<open>
  \<open>v.k\<close> for the property names this program reads (\<open>choices\<close>, \<open>delta\<close>,
  \<open>content\<close>, \<open>type\<close>, \<open>text\<close>, \<open>candidates\<close>, \<open>parts\<close>, \<open>error\<close>,
  \<open>message\<close>): none of them is inherited from a prototype, so on an object it is the
  own property or \<open>undefined\<close>, on an array, string, number or boolean it is
  \<open>undefined\<close>, and on \<open>null\<close> or \<open>undefined\<close> the access throws a TypeError.
  \<open>v[0]\<close> is the first element of an array, the first code unit of a string and the
  property \<open>"0"\<close> of an object.
\<close>

fun member :: "jsval \<Rightarrow> js_string \<Rightarrow> js_error + jsval" where
  "member JUndefined k = Inl TypeError"
| "member JNull k = Inl TypeError"
| "member (JObj kvs) k = Inr (case map_of kvs k of None \<Rightarrow> JUndefined | Some v \<Rightarrow> v)"
| "member v k = Inr JUndefined"

fun index0 :: "jsval \<Rightarrow> js_error + jsval" where
  "index0 JUndefined = Inl TypeError"
| "index0 JNull = Inl TypeError"
| "index0 (JObj kvs) = Inr (case map_of kvs (lit ''0'') of None \<Rightarrow> JUndefined | Some v \<Rightarrow> v)"
| "index0 (JArr xs) = Inr (case xs of [] \<Rightarrow> JUndefined | x # _ \<Rightarrow> x)"
| "index0 (JStr s) = Inr (case s of [] \<Rightarrow> JUndefined | c # _ \<Rightarrow> JStr [c])"
| "index0 v = Inr JUndefined"

text \<open>Optional chaining \<open>v?.k\<close> and \<open>v?.[0]\<close>: \<open>undefined\<close> on a nullish \<open>v\<close>.\<close>

definition opt_member :: "jsval \<Rightarrow> js_string \<Rightarrow> jsval" where
  "opt_member v k = (case member v k of Inl e \<Rightarrow> JUndefined | Inr x \<Rightarrow> x)"

definition opt_index0 :: "jsval \<Rightarrow> jsval" where
  "opt_index0 v = (case index0 v of Inl e \<Rightarrow> JUndefined | Inr x \<Rightarrow> x)"

text \<open>
  The built-in functions the program calls, taken as parameters: every theorem below
  holds whatever they compute.
  \<^item> \<open>JSON_parse s\<close> is \<open>None\<close> where \<open>JSON.parse(s)\<close> throws a SyntaxError;
  \<^item> \<open>JSON_stringify v\<close> is \<open>JSON.stringify(v)\<close> of a parsed value;
  \<^item> \<open>ToString v\<close> is the text that \<open>"" + v\<close> gives for a value that is not a
    string, \<open>None\<close> where the conversion throws;
  \<^item> \<open>localeCompare a b\<close> is \<open>a.localeCompare(b)\<close>;
  \<^item> \<open>Date_getTime s\<close> is \<open>new Date(s).getTime()\<close>, \<open>None\<close> for \<open>NaN\<close>;
  \<^item> \<open>engine_order times\<close> is what the engine's \<open>sort\<close> does under the date
    comparator to a list whose dates are \<open>times\<close>, some of them \<open>NaN\<close>: the positions
    of the elements, in the order in which the sort leaves them. The comparator is not
    consistent then, and ECMAScript leaves the order to the implementation; the order
    depends on the list only through the outcomes of the comparator, that is, through
    the dates.
\<close>

record js_builtins =
  JSON_parse :: "js_string \<Rightarrow> jsval option"
  JSON_stringify :: "jsval \<Rightarrow> js_string"
  ToString :: "jsval \<Rightarrow> js_string option"
  localeCompare :: "js_string \<Rightarrow> js_string \<Rightarrow> int"
  Date_getTime :: "js_string \<Rightarrow> int option"
  engine_order :: "int option list \<Rightarrow> nat list"

text \<open>\<open>full += content\<close> on a string \<open>full\<close>: \<open>None\<close> where the conversion throws.\<close>

definition append_text :: "js_builtins \<Rightarrow> js_string \<Rightarrow> jsval \<Rightarrow> js_string option" where
  "append_text js full content =
     (case content of
        JStr s \<Rightarrow> Some (full @ s)
      | _ \<Rightarrow> map_option (\<lambda>t. full @ t) (ToString js content))"

text \<open>
  \<open>xs.sort(cmp)\<close>: the sort is stable, and for a consistent comparator the result is
  the stable sorted arrangement, which insertion from the right computes. An element
  moves past those that compare strictly smaller.
\<close>

fun insert_by :: "('a \<Rightarrow> 'a \<Rightarrow> int) \<Rightarrow> 'a \<Rightarrow> 'a list \<Rightarrow> 'a list" where
  "insert_by cmp x [] = [x]"
| "insert_by cmp x (y # ys) =
     (if cmp x y \<le> 0 then x # y # ys else y # insert_by cmp x ys)"

definition js_sort :: "('a \<Rightarrow> 'a \<Rightarrow> int) \<Rightarrow> 'a list \<Rightarrow> 'a list" where
  "js_sort cmp xs = foldr (insert_by cmp) xs []"


section \<open>The provider checker (\<open>lib/checks.ts\<close>)\<close>

subsection \<open>Data\<close>

text \<open>
  \<open>ProviderConfig\<close> and \<open>CheckResult\<close> have fields of the same name in the source
  (\<open>id\<close>, \<open>name\<close>, \<open>type\<close>, \<open>endpoint\<close>, \<open>model\<close>, \<open>groupName\<close>); here the
  fields of a configuration carry the prefix \<open>cfg_\<close> and those of a result the prefix
  \<open>res_\<close>. The two fields \<open>groupName\<close> and \<open>is_maintenance\<close> of a configuration
  and the fields \<open>pingLatencyMs\<close>, \<open>groupName\<close> and \<open>officialStatus\<close> of a result
  are those \<open>lib/core/group-data.ts\<close> reads and writes; \<open>lib/checks.ts\<close> leaves them
  unset.
\<close>

datatype ProviderType = openai | gemini | anthropic

record ProviderConfig =
  cfg_id :: js_string
  cfg_name :: js_string
  cfg_type :: ProviderType
  cfg_endpoint :: js_string
  cfg_model :: js_string
  cfg_apiKey :: js_string
  cfg_groupName :: "js_string option"
  is_maintenance :: bool

datatype HealthStatus = operational | degraded | failed | maintenance

record CheckResult =
  res_id :: js_string
  res_name :: js_string
  res_type :: ProviderType
  res_endpoint :: js_string
  res_model :: js_string
  status :: HealthStatus
  latencyMs :: "int option"
  pingLatencyMs :: "int option"
  checkedAt :: js_string
  message :: jsval
  res_groupName :: "js_string option"
  officialStatus :: "jsval option"

definition DEFAULT_ENDPOINTS :: "ProviderType \<Rightarrow> js_string" where
  "DEFAULT_ENDPOINTS t =
     (case t of
        openai \<Rightarrow> lit ''https://api.openai.com/v1/chat/completions''
      | gemini \<Rightarrow> lit ''https://generativelanguage.googleapis.com/v1beta''
      | anthropic \<Rightarrow> lit ''https://api.anthropic.com/v1/messages'')"

definition DEFAULT_TIMEOUT_MS :: int where
  "DEFAULT_TIMEOUT_MS = 15000"

definition DEGRADED_THRESHOLD_MS :: int where
  "DEGRADED_THRESHOLD_MS = 6000"

text \<open>The message literals of the source.\<close>

definition MSG_TIMEOUT :: js_string where
  \<comment> \<open>code units 8BF7 6C42 8D85 65F6: request timed out\<close>
  "MSG_TIMEOUT = [0x8BF7, 0x6C42, 0x8D85, 0x65F6]"

definition MSG_UNKNOWN :: js_string where
  \<comment> \<open>code units 672A 77E5 9519 8BEF: unknown error\<close>
  "MSG_UNKNOWN = [0x672A, 0x77E5, 0x9519, 0x8BEF]"

definition MSG_EMPTY_BODY :: js_string where
  \<comment> \<open>code units 54CD 5E94 4F53 4E3A 7A7A: the response body is empty\<close>
  "MSG_EMPTY_BODY = [0x54CD, 0x5E94, 0x4F53, 0x4E3A, 0x7A7A]"

definition MSG_SLOW :: "int \<Rightarrow> js_string" where
  \<comment> \<open>seven Chinese code units, a space, \<open>${latencyMs}ms\<close>: answered, but took so long\<close>
  "MSG_SLOW latency =
     [0x54CD, 0x5E94, 0x6210, 0x529F, 0x4F46, 0x8017, 0x65F6, 0x20] @ show_int latency @ lit ''ms''"

definition MSG_STREAM_OK :: "int \<Rightarrow> js_string" where
  \<comment> \<open>six Chinese code units, \<open> (${latencyMs}ms)\<close>: the stream answered normally\<close>
  "MSG_STREAM_OK latency =
     [0x6D41, 0x5F0F, 0x54CD, 0x5E94, 0x6B63, 0x5E38, 0x20, 0x28] @ show_int latency @ lit ''ms)''"

subsection \<open>The network, as one probe sees it\<close>

text \<open>
  A reader hands out its chunks one by one; then \<open>read()\<close> either reports
  \<open>done\<close> or rejects (a network error, or the abort of the timeout, which ends every
  stream that does not end by itself). A chunk is the text the streaming \<open>TextDecoder\<close>
  makes of it.
\<close>

datatype reader = Reader (chunks: "js_string list") (read_error: "js_error option")

text \<open>
  A response: its status code, what \<open>response.text()\<close> settles to, and
  \<open>response.body\<close> (\<open>None\<close> for \<open>null\<close>). \<open>response.ok\<close> is a status from 200 to 299.
\<close>

record Response =
  status_code :: nat
  text_result :: "js_error + js_string"
  body_reader :: "reader option"

definition response_ok :: "Response \<Rightarrow> bool" where
  "response_ok response = (200 \<le> status_code response \<and> status_code response \<le> 299)"

datatype fetch_outcome = FetchRejected js_error | FetchResolved Response

text \<open>
  What one probe meets: the reading of \<open>Date.now()\<close> before the request, what
  \<open>fetch\<close> settles to, the second reading of \<open>Date.now()\<close> (after the response
  headers of an error response, after the stream of a successful one), and the text of
  \<open>new Date().toISOString()\<close> when the result is built.
\<close>

record probe_env =
  startedAt :: int
  fetched :: fetch_outcome
  nowAfter :: int
  nowIso :: js_string

subsection \<open>Stream parsers\<close>

text \<open>
  A \<open>for\<close> loop over lines either runs to its end with the text accumulated so far or
  leaves the function by \<open>return\<close>.
\<close>

datatype flow = Continue js_string | Return js_string

text \<open>
  The body of the \<open>try\<close> block of \<open>parseOpenAIStream\<close>, with its empty \<open>catch\<close>:
  the new value of \<open>fullResponse\<close>.
\<close>

definition openai_try :: "js_builtins \<Rightarrow> js_string \<Rightarrow> js_string \<Rightarrow> js_string" where
  "openai_try js fullResponse data =
     (case JSON_parse js data of
        None \<Rightarrow> fullResponse
      | Some parsed \<Rightarrow>
          (case member parsed (lit ''choices'') of
             Inl e \<Rightarrow> fullResponse
           | Inr choices \<Rightarrow>
               (let content =
                      js_or (opt_member (opt_member (opt_index0 choices) (lit ''delta''))
                               (lit ''content''))
                        (JStr [])
                in case append_text js fullResponse content of
                     None \<Rightarrow> fullResponse
                   | Some s \<Rightarrow> s)))"

fun openai_lines :: "js_builtins \<Rightarrow> js_string \<Rightarrow> js_string list \<Rightarrow> flow" where
  "openai_lines js fullResponse [] = Continue fullResponse"
| "openai_lines js fullResponse (line # lines) =
     (if startsWith line (lit ''data: '') then
        (let data = drop 6 line
         in if data = lit ''[DONE]'' then Return fullResponse
            else openai_lines js (openai_try js fullResponse data) lines)
      else openai_lines js fullResponse lines)"

fun openai_loop ::
  "js_builtins \<Rightarrow> js_string \<Rightarrow> js_string list \<Rightarrow> js_error option \<Rightarrow> js_error + js_string"
where
  "openai_loop js fullResponse [] ending =
     (case ending of None \<Rightarrow> Inr fullResponse | Some e \<Rightarrow> Inl e)"
| "openai_loop js fullResponse (chunk # rest) ending =
     (let lines = filter (\<lambda>line. trim line \<noteq> []) (split_nl chunk)
      in case openai_lines js fullResponse lines of
           Return r \<Rightarrow> Inr r
         | Continue fullResponse' \<Rightarrow> openai_loop js fullResponse' rest ending)"

definition parseOpenAIStream :: "js_builtins \<Rightarrow> reader \<Rightarrow> js_error + js_string" where
  "parseOpenAIStream js rd = openai_loop js [] (chunks rd) (read_error rd)"

text \<open>\<open>parseAnthropicStream\<close>: the \<open>try\<close> block, the loop over lines, the loop over chunks.\<close>

definition anthropic_try :: "js_builtins \<Rightarrow> js_string \<Rightarrow> js_string \<Rightarrow> js_string" where
  "anthropic_try js fullResponse data =
     (case JSON_parse js data of
        None \<Rightarrow> fullResponse
      | Some parsed \<Rightarrow>
          (case member parsed (lit ''type'') of
             Inl e \<Rightarrow> fullResponse
           | Inr ty \<Rightarrow>
               if ty = JStr (lit ''content_block_delta'') then
                 (case member parsed (lit ''delta'') of
                    Inl e \<Rightarrow> fullResponse
                  | Inr delta \<Rightarrow>
                      (let content = js_or (opt_member delta (lit ''text'')) (JStr [])
                       in case append_text js fullResponse content of
                            None \<Rightarrow> fullResponse
                          | Some s \<Rightarrow> s))
               else fullResponse))"

fun anthropic_lines :: "js_builtins \<Rightarrow> js_string \<Rightarrow> js_string list \<Rightarrow> js_string" where
  "anthropic_lines js fullResponse [] = fullResponse"
| "anthropic_lines js fullResponse (line # lines) =
     (if startsWith line (lit ''data: '') then
        anthropic_lines js (anthropic_try js fullResponse (drop 6 line)) lines
      else anthropic_lines js fullResponse lines)"

fun anthropic_loop ::
  "js_builtins \<Rightarrow> js_string \<Rightarrow> js_string \<Rightarrow> js_string list \<Rightarrow> js_error option
     \<Rightarrow> js_error + js_string"
where
  "anthropic_loop js fullResponse buffer [] ending =
     (case ending of None \<Rightarrow> Inr fullResponse | Some e \<Rightarrow> Inl e)"
| "anthropic_loop js fullResponse buffer (chunk # rest) ending =
     (let buffer1 = buffer @ chunk;
          lines = split_nl buffer1;
          buffer2 = last lines;
          lines' = butlast lines
      in anthropic_loop js (anthropic_lines js fullResponse lines') buffer2 rest ending)"

definition parseAnthropicStream :: "js_builtins \<Rightarrow> reader \<Rightarrow> js_error + js_string" where
  "parseAnthropicStream js rd = anthropic_loop js [] [] (chunks rd) (read_error rd)"

text \<open>
  \<open>parseGeminiStream\<close>. The loop \<open>for (i = 0; i < jsonObjects.length - 1; i++)\<close>
  visits all elements but the last; \<open>jsonObjects[jsonObjects.length - 1] || ""\<close> is the
  last element, and the empty string when there is none.
\<close>

definition gemini_try :: "js_builtins \<Rightarrow> js_string \<Rightarrow> js_string \<Rightarrow> js_string" where
  "gemini_try js fullResponse text =
     (case JSON_parse js text of
        None \<Rightarrow> fullResponse
      | Some parsed \<Rightarrow>
          (case member parsed (lit ''candidates'') of
             Inl e \<Rightarrow> fullResponse
           | Inr candidates \<Rightarrow>
               (let content =
                      js_or (opt_member
                               (opt_index0
                                  (opt_member
                                     (opt_member (opt_index0 candidates) (lit ''content''))
                                     (lit ''parts'')))
                               (lit ''text''))
                        (JStr [])
                in case append_text js fullResponse content of
                     None \<Rightarrow> fullResponse
                   | Some s \<Rightarrow> s)))"

fun gemini_objects :: "js_builtins \<Rightarrow> js_string \<Rightarrow> js_string list \<Rightarrow> js_string" where
  "gemini_objects js fullResponse [] = fullResponse"
| "gemini_objects js fullResponse (obj # objs) =
     gemini_objects js (gemini_try js fullResponse obj) objs"

fun gemini_loop ::
  "js_builtins \<Rightarrow> js_string \<Rightarrow> js_string \<Rightarrow> js_string list \<Rightarrow> js_error option
     \<Rightarrow> js_error + js_string"
where
  "gemini_loop js fullResponse buffer [] ending =
     (case ending of
        Some e \<Rightarrow> Inl e
      | None \<Rightarrow>
          Inr (if trim buffer \<noteq> [] then gemini_try js fullResponse buffer else fullResponse))"
| "gemini_loop js fullResponse buffer (chunk # rest) ending =
     (let buffer1 = buffer @ chunk;
          jsonObjects = filter (\<lambda>s. trim s \<noteq> []) (split_nl buffer1);
          fullResponse' = gemini_objects js fullResponse (butlast jsonObjects);
          buffer2 = (if jsonObjects = [] then [] else last jsonObjects)
      in gemini_loop js fullResponse' buffer2 rest ending)"

definition parseGeminiStream :: "js_builtins \<Rightarrow> reader \<Rightarrow> js_error + js_string" where
  "parseGeminiStream js rd = gemini_loop js [] [] (chunks rd) (read_error rd)"


subsection \<open>One probe\<close>

definition extractMessage :: "js_builtins \<Rightarrow> js_string \<Rightarrow> jsval" where
  "extractMessage js body =
     (if body = [] then JStr []
      else case JSON_parse js body of
             None \<Rightarrow> JStr (take 280 body)
           | Some parsed \<Rightarrow>
               js_or
                 (js_or
                    (js_or (opt_member (opt_member parsed (lit ''error'')) (lit ''message''))
                       (opt_member parsed (lit ''error'')))
                    (opt_member parsed (lit ''message'')))
                 (JStr (JSON_stringify js parsed)))"

text \<open>
  The parameters of \<open>runStreamCheck\<close>. The request itself (\<open>init\<close>: headers and
  body) goes to \<open>fetch\<close>, whose outcome is in the \<open>probe_env\<close>.
\<close>

record stream_params =
  url :: js_string
  displayEndpoint :: "js_string option"
  parseStream :: "js_builtins \<Rightarrow> reader \<Rightarrow> js_error + js_string"

text \<open>\<open>params.displayEndpoint || params.url\<close>.\<close>

definition shown_endpoint :: "stream_params \<Rightarrow> js_string" where
  "shown_endpoint params =
     (case displayEndpoint params of
        None \<Rightarrow> url params
      | Some e \<Rightarrow> if e \<noteq> [] then e else url params)"

text \<open>The \<open>try\<close> block of \<open>runStreamCheck\<close>: \<open>Inl\<close> is an exception thrown inside it.\<close>

definition runStreamCheck_try ::
  "js_builtins \<Rightarrow> ProviderConfig \<Rightarrow> stream_params \<Rightarrow> probe_env \<Rightarrow> js_error + CheckResult"
where
  "runStreamCheck_try js config params env =
     (case fetched env of
        FetchRejected e \<Rightarrow> Inl e
      | FetchResolved response \<Rightarrow>
          if \<not> response_ok response then
            (let latency = nowAfter env - startedAt env
             in case text_result response of
                  Inl e \<Rightarrow> Inl e
                | Inr errorBody \<Rightarrow>
                    (let msg = js_or (extractMessage js errorBody)
                                 (JStr (lit ''HTTP '' @ show_nat (status_code response)))
                     in Inr \<lparr> res_id = cfg_id config, res_name = cfg_name config,
                              res_type = cfg_type config, res_endpoint = shown_endpoint params,
                              res_model = cfg_model config, status = failed,
                              latencyMs = Some latency, pingLatencyMs = None,
                              checkedAt = nowIso env, message = msg,
                              res_groupName = None, officialStatus = None \<rparr>))
          else
            (case body_reader response of
               None \<Rightarrow> Inl (JsError (lit ''Error'') MSG_EMPTY_BODY)
             | Some rd \<Rightarrow>
                 (case parseStream params js rd of
                    Inl e \<Rightarrow> Inl e
                  | Inr text \<Rightarrow>
                      (let latency = nowAfter env - startedAt env;
                           st = (if latency \<le> DEGRADED_THRESHOLD_MS then operational
                                 else degraded);
                           msg = (if st = degraded then MSG_SLOW latency
                                  else MSG_STREAM_OK latency)
                       in Inr \<lparr> res_id = cfg_id config, res_name = cfg_name config,
                                res_type = cfg_type config,
                                res_endpoint = shown_endpoint params,
                                res_model = cfg_model config, status = st,
                                latencyMs = Some latency, pingLatencyMs = None,
                                checkedAt = nowIso env, message = JStr msg,
                                res_groupName = None, officialStatus = None \<rparr>))))"

text \<open>
  The message of the \<open>catch\<close> block:
  \<open>err?.name === "AbortError" ? MSG_TIMEOUT : err?.message || MSG_UNKNOWN\<close>.
\<close>

definition catch_message :: "js_error \<Rightarrow> js_string" where
  "catch_message err =
     (if err_name err = lit ''AbortError'' then MSG_TIMEOUT
      else if err_message err \<noteq> [] then err_message err
      else MSG_UNKNOWN)"

text \<open>
  \<open>runStreamCheck\<close>: the \<open>try\<close> block and its \<open>catch\<close>. The function is
  \<open>async\<close>; \<open>Inl\<close> would be a rejected promise.
\<close>

definition runStreamCheck ::
  "js_builtins \<Rightarrow> ProviderConfig \<Rightarrow> stream_params \<Rightarrow> probe_env \<Rightarrow> js_error + CheckResult"
where
  "runStreamCheck js config params env =
     (case runStreamCheck_try js config params env of
        Inr result \<Rightarrow> Inr result
      | Inl err \<Rightarrow>
          Inr \<lparr> res_id = cfg_id config, res_name = cfg_name config,
                res_type = cfg_type config, res_endpoint = shown_endpoint params,
                res_model = cfg_model config, status = failed,
                latencyMs = None, pingLatencyMs = None,
                checkedAt = nowIso env, message = JStr (catch_message err),
                res_groupName = None, officialStatus = None \<rparr>)"

subsection \<open>Endpoints and the three provider checks\<close>

text \<open>\<open>s.replace(/\/$/, "")\<close> and \<open>s.replace(pat, rep)\<close> (the first occurrence).\<close>

definition strip_trailing_slash :: "js_string \<Rightarrow> js_string" where
  "strip_trailing_slash s = (if s \<noteq> [] \<and> last s = 47 then butlast s else s)"

fun replace_first :: "js_string \<Rightarrow> js_string \<Rightarrow> js_string \<Rightarrow> js_string" where
  "replace_first [] pat rep = (if pat = [] then rep else [])"
| "replace_first (c # cs) pat rep =
     (if startsWith (c # cs) pat then rep @ drop (length pat) (c # cs)
      else c # replace_first cs pat rep)"

definition ensurePath :: "js_string \<Rightarrow> js_string \<Rightarrow> js_string" where
  "ensurePath endpoint fallbackPath =
     (if endpoint = [] then fallbackPath
      else if endsWith endpoint fallbackPath \<or> js_includes endpoint (lit ''/v1/'')
              \<or> js_includes endpoint (lit ''/deployments/'') \<or> js_includes endpoint (lit ''?'')
      then endpoint
      else strip_trailing_slash endpoint @ fallbackPath)"

definition appendQuery :: "js_string \<Rightarrow> js_string \<Rightarrow> js_string" where
  "appendQuery u query =
     (if js_includes u (lit ''?'') then u @ lit ''&'' @ query else u @ lit ''?'' @ query)"

definition checkOpenAI ::
  "js_builtins \<Rightarrow> ProviderConfig \<Rightarrow> probe_env \<Rightarrow> js_error + CheckResult"
where
  "checkOpenAI js config env =
     runStreamCheck js config
       \<lparr> url = ensurePath (cfg_endpoint config) (lit ''/v1/chat/completions''),
         displayEndpoint = Some (cfg_endpoint config),
         parseStream = parseOpenAIStream \<rparr> env"

definition checkGemini ::
  "js_builtins \<Rightarrow> ProviderConfig \<Rightarrow> probe_env \<Rightarrow> js_error + CheckResult"
where
  "checkGemini js config env =
     (let normalized =
            (if endsWith (cfg_endpoint config) (lit '':streamGenerateContent'')
             then cfg_endpoint config
             else if endsWith (cfg_endpoint config) (lit '':generateContent'')
             then replace_first (cfg_endpoint config) (lit '':generateContent'')
                    (lit '':streamGenerateContent'')
             else strip_trailing_slash (cfg_endpoint config) @ lit ''/models/''
                    @ cfg_model config @ lit '':streamGenerateContent'')
      in runStreamCheck js config
           \<lparr> url = appendQuery normalized (lit ''key='' @ cfg_apiKey config),
             displayEndpoint = Some (cfg_endpoint config),
             parseStream = parseGeminiStream \<rparr> env)"

definition checkAnthropic ::
  "js_builtins \<Rightarrow> ProviderConfig \<Rightarrow> probe_env \<Rightarrow> js_error + CheckResult"
where
  "checkAnthropic js config env =
     runStreamCheck js config
       \<lparr> url = ensurePath (cfg_endpoint config) (lit ''/v1/messages''),
         displayEndpoint = Some (cfg_endpoint config),
         parseStream = parseAnthropicStream \<rparr> env"

text \<open>
  \<open>checkProvider\<close>: the \<open>switch\<close> over the type. Its \<open>default\<close> branch throws, and
  no value of \<open>ProviderType\<close> reaches it.
\<close>

definition checkProvider ::
  "js_builtins \<Rightarrow> ProviderConfig \<Rightarrow> probe_env \<Rightarrow> js_error + CheckResult"
where
  "checkProvider js config env =
     (case cfg_type config of
        openai \<Rightarrow> checkOpenAI js config env
      | gemini \<Rightarrow> checkGemini js config env
      | anthropic \<Rightarrow> checkAnthropic js config env)"

subsection \<open>The batch\<close>

text \<open>
  \<open>Promise.all\<close> resolves to the values in the order of its arguments, whatever the
  order in which they settle, and rejects when one of them rejects.
\<close>

fun promise_all :: "(js_error + 'a) list \<Rightarrow> js_error + 'a list" where
  "promise_all [] = Inr []"
| "promise_all (Inl e # ps) = Inl e"
| "promise_all (Inr v # ps) = (case promise_all ps of Inl e \<Rightarrow> Inl e | Inr vs \<Rightarrow> Inr (v # vs))"

text \<open>
  The callback of \<open>configs.map\<close> in \<open>runProviderChecks\<close>: \<open>checkProvider\<close> inside
  \<open>try\<close>, and the \<open>catch\<close> that builds a failed result.
\<close>

definition check_caught ::
  "js_builtins \<Rightarrow> ProviderConfig \<Rightarrow> probe_env \<Rightarrow> js_error + CheckResult"
where
  "check_caught js config env =
     (case checkProvider js config env of
        Inr result \<Rightarrow> Inr result
      | Inl err \<Rightarrow>
          Inr \<lparr> res_id = cfg_id config, res_name = cfg_name config,
                res_type = cfg_type config, res_endpoint = cfg_endpoint config,
                res_model = cfg_model config, status = failed,
                latencyMs = None, pingLatencyMs = None,
                checkedAt = nowIso env,
                message = JStr (if err_message err \<noteq> [] then err_message err else MSG_UNKNOWN),
                res_groupName = None, officialStatus = None \<rparr>)"

text \<open>
  \<open>runProviderChecks\<close>. In \<open>lib/checks.ts\<close> the list of configurations comes from
  \<open>loadProviderConfigs()\<close>; \<open>lib/core/group-data.ts\<close> passes it as the argument.
  \<open>net i\<close> is what the probe of the \<open>i\<close>-th configuration meets.
\<close>

definition runProviderChecks ::
  "js_builtins \<Rightarrow> (nat \<Rightarrow> probe_env) \<Rightarrow> ProviderConfig list \<Rightarrow> js_error + CheckResult list"
where
  "runProviderChecks js net configs =
     (if length configs = 0 then Inr []
      else case promise_all (map (\<lambda>(i, config). check_caught js config (net i))
                               (enumerate 0 configs)) of
             Inl e \<Rightarrow> Inl e
           | Inr results \<Rightarrow>
               Inr (js_sort (\<lambda>a b. localeCompare js (res_name a) (res_name b)) results))"

section \<open>The OpenAI check through the SDK (\<open>lib/providers/openai.ts\<close>)\<close>

text \<open>
  What the SDK call meets: \<open>client.chat.completions.create\<close> rejects (it does for
  every response that is not 2xx, for a network error and for the abort), or it opens a
  stream on a 2xx response. The iteration of the stream (\<open>for await\<close>) then either
  ends without throwing (\<open>None\<close>: at the end of the stream, or wherever the SDK ends
  the iteration itself) or throws (\<open>Some e\<close>). The SDK is not among the sources; which
  events of the network make it do which is not modelled.
\<close>

datatype sdk_outcome = CreateRejected js_error | StreamOpened "js_error option"

record sdk_env =
  sdk_startedAt :: int
  sdk_result :: sdk_outcome
  sdk_nowAfter :: int
  sdk_nowIso :: js_string

definition sdk_displayEndpoint :: "ProviderConfig \<Rightarrow> js_string" where
  \<comment> \<open>\<open>config.endpoint || DEFAULT_ENDPOINTS.openai\<close>\<close>
  "sdk_displayEndpoint config =
     (if cfg_endpoint config \<noteq> [] then cfg_endpoint config else DEFAULT_ENDPOINTS openai)"

definition checkOpenAI_sdk_try :: "ProviderConfig \<Rightarrow> sdk_env \<Rightarrow> js_error + CheckResult" where
  "checkOpenAI_sdk_try config env =
     (case sdk_result env of
        CreateRejected e \<Rightarrow> Inl e
      | StreamOpened (Some e) \<Rightarrow> Inl e
      | StreamOpened None \<Rightarrow>
          (let latency = sdk_nowAfter env - sdk_startedAt env;
               st = (if latency \<le> DEGRADED_THRESHOLD_MS then operational else degraded);
               msg = (if st = degraded then MSG_SLOW latency else MSG_STREAM_OK latency)
           in Inr \<lparr> res_id = cfg_id config, res_name = cfg_name config,
                    res_type = cfg_type config, res_endpoint = sdk_displayEndpoint config,
                    res_model = cfg_model config, status = st,
                    latencyMs = Some latency, pingLatencyMs = None,
                    checkedAt = sdk_nowIso env, message = JStr msg,
                    res_groupName = None, officialStatus = None \<rparr>))"

text \<open>
  \<open>checkOpenAI\<close> of \<open>lib/providers/openai.ts\<close> (the suffix tells it from the
  function of the same name in \<open>lib/checks.ts\<close>).
\<close>

definition checkOpenAI_sdk :: "ProviderConfig \<Rightarrow> sdk_env \<Rightarrow> js_error + CheckResult" where
  "checkOpenAI_sdk config env =
     (case checkOpenAI_sdk_try config env of
        Inr result \<Rightarrow> Inr result
      | Inl err \<Rightarrow>
          Inr \<lparr> res_id = cfg_id config, res_name = cfg_name config,
                res_type = cfg_type config, res_endpoint = sdk_displayEndpoint config,
                res_model = cfg_model config, status = failed,
                latencyMs = None, pingLatencyMs = None,
                checkedAt = sdk_nowIso env, message = JStr (catch_message err),
                res_groupName = None, officialStatus = None \<rparr>)"


section \<open>The history table (SQL migration of 2025-11-27)\<close>

text \<open>
  A row of \<open>check_history\<close> and a row of \<open>check_configs\<close>, with the columns the two
  functions read. A \<open>uuid\<close> is a number, a \<open>timestamptz\<close> a number of microseconds.
  The columns the functions compare (\<open>id\<close>, \<open>config_id\<close>, \<open>checked_at\<close>) and the
  argument \<open>limit_per_config\<close> are not null.
\<close>

type_synonym uuid = nat

record check_history_row =
  h_id :: uuid
  h_config_id :: uuid
  h_status :: js_string
  h_latency_ms :: "int option"
  h_ping_latency_ms :: "int option"
  h_checked_at :: int
  h_message :: "js_string option"

record check_configs_row =
  c_id :: uuid
  c_name :: js_string
  c_type :: js_string
  c_model :: js_string
  c_endpoint :: js_string
  c_group_name :: "js_string option"

text \<open>
  \<open>row_number() over (partition by config_id order by checked_at desc)\<close>: the rows of
  each configuration, newest first, numbered from 1. Among rows of equal \<open>checked_at\<close>
  SQL leaves the order open; here they keep the order of the table.
\<close>

definition partition_desc :: "uuid \<Rightarrow> check_history_row list \<Rightarrow> check_history_row list" where
  "partition_desc c rows =
     sort_key (\<lambda>h. - h_checked_at h) (filter (\<lambda>h. h_config_id h = c) rows)"

definition ranked :: "check_history_row list \<Rightarrow> (nat \<times> check_history_row) list" where
  "ranked rows =
     concat (map (\<lambda>c. enumerate 1 (partition_desc c rows)) (remdups (map h_config_id rows)))"

text \<open>
  \<open>prune_check_history(limit_per_config)\<close>:
  \<open>delete from check_history where id in (select id from ranked where rn > limit_per_config)\<close>.
\<close>

definition prune_check_history :: "int \<Rightarrow> check_history_row list \<Rightarrow> check_history_row list" where
  "prune_check_history limit_per_config check_history =
     (let doomed = map (\<lambda>(rn, h). h_id h)
                     (filter (\<lambda>(rn, h). int rn > limit_per_config) (ranked check_history))
      in filter (\<lambda>h. h_id h \<notin> set doomed) check_history)"

text \<open>
  \<open>get_recent_check_history(limit_per_config, target_config_ids)\<close>: the ranked rows
  of the wanted configurations, joined with their configuration, those of rank at most
  \<open>limit_per_config\<close>, ordered by name and then newest first. \<open>None\<close> is the
  \<open>null\<close> default of \<open>target_config_ids\<close>. The order of names is that of the code
  units.
\<close>

record recent_row =
  r_config_id :: uuid
  r_status :: js_string
  r_latency_ms :: "int option"
  r_ping_latency_ms :: "int option"
  r_checked_at :: int
  r_message :: "js_string option"
  r_name :: js_string
  r_type :: js_string
  r_model :: js_string
  r_endpoint :: js_string
  r_group_name :: "js_string option"

definition get_recent_check_history ::
  "int \<Rightarrow> uuid list option \<Rightarrow> check_history_row list \<Rightarrow> check_configs_row list
     \<Rightarrow> recent_row list"
where
  "get_recent_check_history limit_per_config target_config_ids check_history check_configs =
     (let wanted = filter (\<lambda>h. case target_config_ids of
                                   None \<Rightarrow> True
                                 | Some ids \<Rightarrow> h_config_id h \<in> set ids) check_history;
          joined = concat (map (\<lambda>(rn, r).
                                  map (\<lambda>c. (rn, r, c))
                                    (filter (\<lambda>c. c_id c = h_config_id r) check_configs))
                             (ranked wanted));
          kept = filter (\<lambda>(rn, r, c). int rn \<le> limit_per_config) joined;
          ordered = sort_key (\<lambda>(rn, r, c). (c_name c, - h_checked_at r)) kept
      in map (\<lambda>(rn, r, c).
                \<lparr> r_config_id = h_config_id r, r_status = h_status r,
                  r_latency_ms = h_latency_ms r, r_ping_latency_ms = h_ping_latency_ms r,
                  r_checked_at = h_checked_at r, r_message = h_message r,
                  r_name = c_name c, r_type = c_type c, r_model = c_model c,
                  r_endpoint = c_endpoint c, r_group_name = c_group_name c \<rparr>) ordered)"

section \<open>Group dashboard data (\<open>lib/core/group-data.ts\<close>)\<close>

subsection \<open>Data\<close>

text \<open>
  A \<open>HistorySnapshot\<close> is an object from provider ids to lists of results: here the
  list of its entries, in the order of \<open>Object.entries\<close>.
\<close>

type_synonym HistorySnapshot = "(js_string \<times> CheckResult list) list"

record ProviderTimeline =
  tl_id :: js_string
  items :: "CheckResult list"
  latest :: CheckResult

record GroupDashboardData =
  groupName :: js_string
  displayName :: js_string
  providerTimelines :: "ProviderTimeline list"
  lastUpdated :: "js_string option"
  total :: nat
  pollIntervalLabel :: js_string
  pollIntervalMs :: int
  generatedAt :: int

datatype RefreshMode = always | missing | never

definition UNGROUPED_KEY :: js_string where
  "UNGROUPED_KEY = lit ''__ungrouped__''"

definition UNGROUPED_DISPLAY_NAME :: js_string where
  \<comment> \<open>code units 672A 5206 7EC4: not grouped\<close>
  "UNGROUPED_DISPLAY_NAME = [0x672A, 0x5206, 0x7EC4]"

definition MSG_MAINTENANCE :: js_string where
  \<comment> \<open>code units 914D 7F6E 5904 4E8E 7EF4 62A4 6A21 5F0F: the configuration is in maintenance mode\<close>
  "MSG_MAINTENANCE = [0x914D, 0x7F6E, 0x5904, 0x4E8E, 0x7EF4, 0x62A4, 0x6A21, 0x5F0F]"

text \<open>
  Modelled from the spec: the cache entry of \<open>lib/core/global-state.ts\<close>, which is not
  among the sources. An entry holds \<open>history\<close> (a snapshot or nothing), \<open>lastPingAt\<close>
  and \<open>inflight\<close> (the handle of the refresh in flight, or nothing); it is created
  lazily on the first access of its key and lives as long as the process. A promise is
  known by a number.
\<close>

record PingCacheEntry =
  history :: "HistorySnapshot option"
  lastPingAt :: int
  inflight :: "nat option"

definition new_entry :: PingCacheEntry where
  "new_entry = \<lparr> history = None, lastPingAt = 0, inflight = None \<rparr>"

definition getPingCacheEntry ::
  "(js_string \<rightharpoonup> PingCacheEntry) \<Rightarrow> js_string \<Rightarrow> PingCacheEntry \<times> (js_string \<rightharpoonup> PingCacheEntry)"
where
  "getPingCacheEntry cache key =
     (case cache key of
        Some entry \<Rightarrow> (entry, cache)
      | None \<Rightarrow> (new_entry, cache(key \<mapsto> new_entry)))"

text \<open>
  What one call of \<open>loadGroupDashboardData\<close> meets in the modules that are not among
  the sources:
  \<^item> \<open>db_configs\<close>: what \<open>loadProviderConfigsFromDB()\<close> settles to;
  \<^item> \<open>stored\<close>: what \<open>loadHistory()\<close> settles to;
  \<^item> \<open>store_append results\<close>: what \<open>appendHistory(results)\<close> settles to;
  \<^item> \<open>pollingIntervalMs\<close>, \<open>pollingIntervalLabel\<close>: \<open>getPollingIntervalMs()\<close>
    and \<open>getPollingIntervalLabel()\<close>;
  \<^item> \<open>official t\<close>: \<open>getOfficialStatus(t)\<close>, \<open>JUndefined\<close> when there is none;
  \<^item> \<open>net\<close>: what the probes of a round meet;
  \<^item> \<open>awaited\<close>: what a refresh already in flight for the key settles to;
  \<^item> \<open>fresh_promise\<close>: the handle of a promise this call creates;
  \<^item> the readings of the clock: \<open>now_refresh\<close> (\<open>Date.now()\<close> on entering
    \<open>refreshHistory\<close>), \<open>now_done\<close> (\<open>Date.now()\<close> at the end of a round),
    \<open>now_iso\<close> (\<open>new Date().toISOString()\<close>) and \<open>now_generated\<close>
    (\<open>Date.now()\<close> for \<open>generatedAt\<close>).
\<close>

record group_env =
  db_configs :: "js_error + ProviderConfig list"
  stored :: "js_error + HistorySnapshot"
  store_append :: "CheckResult list \<Rightarrow> js_error + HistorySnapshot"
  pollingIntervalMs :: int
  pollingIntervalLabel :: js_string
  official :: "ProviderType \<Rightarrow> jsval"
  net :: "nat \<Rightarrow> probe_env"
  awaited :: "js_error + HistorySnapshot"
  fresh_promise :: nat
  now_refresh :: int
  now_done :: int
  now_iso :: js_string
  now_generated :: int

text \<open>
  What a call did to the outside: the configurations handed to \<open>runProviderChecks\<close>
  and the results handed to \<open>appendHistory\<close>, one list per call.
\<close>

record effects =
  probed :: "ProviderConfig list list"
  written :: "CheckResult list list"

definition no_effects :: effects where
  "no_effects = \<lparr> probed = [], written = [] \<rparr>"

subsection \<open>The closures of \<open>loadGroupDashboardData\<close>\<close>

text \<open>
  \<open>allowedIds\<close> is a \<open>Set\<close>: here the list of its elements, without repetition. The
  code asks for its size and its members, and sorts it before it joins it.
\<close>

definition filterHistory :: "js_string list \<Rightarrow> HistorySnapshot \<Rightarrow> HistorySnapshot" where
  "filterHistory allowedIds snapshot =
     (if length allowedIds = 0 then []
      else filter (\<lambda>(id', rs). id' \<in> set allowedIds) snapshot)"

definition readFilteredHistory :: "group_env \<Rightarrow> js_string list \<Rightarrow> js_error + HistorySnapshot" where
  "readFilteredHistory env allowedIds =
     (case stored env of Inl e \<Rightarrow> Inl e | Inr snapshot \<Rightarrow> Inr (filterHistory allowedIds snapshot))"

text \<open>
  \<open>refreshHistory\<close> runs without interruption from its entry to its first \<open>await\<close>.
  In that stretch it takes one of four ways.
\<close>

datatype refresh_branch =
    ReturnEmpty
  | ReturnCached HistorySnapshot
  | AwaitInflight nat
  | StartRound

definition refresh_enter :: "js_string list \<Rightarrow> int \<Rightarrow> int \<Rightarrow> PingCacheEntry \<Rightarrow> refresh_branch" where
  "refresh_enter allowedIds interval now cacheEntry =
     (if length allowedIds = 0 then ReturnEmpty
      else case (if now - lastPingAt cacheEntry < interval then history cacheEntry else None) of
             Some h \<Rightarrow> ReturnCached h
           | None \<Rightarrow>
               (case inflight cacheEntry of Some p \<Rightarrow> AwaitInflight p | None \<Rightarrow> StartRound))"

text \<open>
  The body of the promise \<open>inflightPromise\<close> up to \<open>nextHistory\<close>: the round of
  probes, then the write of its results (or, for no results, a read).
\<close>

definition refresh_round ::
  "js_builtins \<Rightarrow> group_env \<Rightarrow> ProviderConfig list \<Rightarrow> js_string list
     \<Rightarrow> (js_error + HistorySnapshot) \<times> effects"
where
  "refresh_round js env activeConfigs allowedIds =
     (case runProviderChecks js (net env) activeConfigs of
        Inl e \<Rightarrow> (Inl e, \<lparr> probed = [activeConfigs], written = [] \<rparr>)
      | Inr results \<Rightarrow>
          if length results > 0 then
            (case store_append env results of
               Inl e \<Rightarrow> (Inl e, \<lparr> probed = [activeConfigs], written = [results] \<rparr>)
             | Inr snapshot \<Rightarrow>
                 (Inr (filterHistory allowedIds snapshot),
                  \<lparr> probed = [activeConfigs], written = [results] \<rparr>))
          else (readFilteredHistory env allowedIds, \<lparr> probed = [activeConfigs], written = [] \<rparr>))"

text \<open>The end of the promise, and the \<open>finally\<close> block of the call that made it.\<close>

definition round_done :: "HistorySnapshot \<Rightarrow> int \<Rightarrow> PingCacheEntry \<Rightarrow> PingCacheEntry" where
  "round_done nextHistory now cacheEntry =
     cacheEntry \<lparr> history := Some nextHistory, lastPingAt := now \<rparr>"

definition refresh_finally :: "nat \<Rightarrow> PingCacheEntry \<Rightarrow> PingCacheEntry" where
  "refresh_finally p cacheEntry =
     (if inflight cacheEntry = Some p then cacheEntry \<lparr> inflight := None \<rparr> else cacheEntry)"

text \<open>
  \<open>refreshHistory\<close> from its call to the settlement of what it returns, when no other
  call touches the entry in between.
\<close>

definition refreshHistory ::
  "js_builtins \<Rightarrow> group_env \<Rightarrow> ProviderConfig list \<Rightarrow> js_string list \<Rightarrow> PingCacheEntry
     \<Rightarrow> (js_error + HistorySnapshot) \<times> PingCacheEntry \<times> effects"
where
  "refreshHistory js env activeConfigs allowedIds cacheEntry =
     (case refresh_enter allowedIds (pollingIntervalMs env) (now_refresh env) cacheEntry of
        ReturnEmpty \<Rightarrow> (Inr [], cacheEntry, no_effects)
      | ReturnCached h \<Rightarrow> (Inr h, cacheEntry, no_effects)
      | AwaitInflight p \<Rightarrow> (awaited env, cacheEntry, no_effects)
      | StartRound \<Rightarrow>
          (let p = fresh_promise env;
               entry1 = cacheEntry \<lparr> inflight := Some p \<rparr>
           in case refresh_round js env activeConfigs allowedIds of
                (Inl e, eff) \<Rightarrow> (Inl e, refresh_finally p entry1, eff)
              | (Inr nextHistory, eff) \<Rightarrow>
                  (Inr nextHistory,
                   refresh_finally p (round_done nextHistory (now_done env) entry1), eff)))"


subsection \<open>Timelines\<close>

text \<open>
  The comparator \<open>new Date(b.checkedAt).getTime() - new Date(a.checkedAt).getTime()\<close>;
  a difference that is \<open>NaN\<close> counts as 0 in a sort.
\<close>

definition newest_first :: "js_builtins \<Rightarrow> CheckResult \<Rightarrow> CheckResult \<Rightarrow> int" where
  "newest_first js a b =
     (case (Date_getTime js (checkedAt b), Date_getTime js (checkedAt a)) of
        (Some tb, Some ta) \<Rightarrow> tb - ta
      | _ \<Rightarrow> 0)"

text \<open>
  \<open>xs.sort(newest_first)\<close>. When every date parses, the comparator is consistent and
  the result is the stable sorted arrangement. Otherwise the result is the engine's.
\<close>

definition sort_by_date :: "js_builtins \<Rightarrow> CheckResult list \<Rightarrow> CheckResult list" where
  "sort_by_date js xs =
     (let times = map (\<lambda>r. Date_getTime js (checkedAt r)) xs
      in if list_all (\<lambda>t. t \<noteq> None) times then js_sort (newest_first js) xs
         else map (\<lambda>i. xs ! i) (filter (\<lambda>i. i < length xs) (engine_order js times)))"

text \<open>\<open>if (officialStatus) latest.officialStatus = officialStatus\<close>.\<close>

definition attach_official :: "group_env \<Rightarrow> CheckResult \<Rightarrow> CheckResult" where
  "attach_official env r =
     (let officialStatus' = official env (res_type r)
      in if truthy officialStatus' then r \<lparr> officialStatus := Some officialStatus' \<rparr> else r)"

definition mapped_timeline ::
  "js_builtins \<Rightarrow> group_env \<Rightarrow> js_string \<times> CheckResult list \<Rightarrow> ProviderTimeline option"
where
  "mapped_timeline js env entry =
     (case entry of (id', its) \<Rightarrow>
        (case sort_by_date js its of
           [] \<Rightarrow> None
         | first # others \<Rightarrow>
             Some \<lparr> tl_id = id', items = first # others,
                    latest = attach_official env first \<rparr>))"

definition maintenance_timeline :: "group_env \<Rightarrow> ProviderConfig \<Rightarrow> ProviderTimeline" where
  "maintenance_timeline env config =
     \<lparr> tl_id = cfg_id config,
       items = [],
       latest = attach_official env
         \<lparr> res_id = cfg_id config, res_name = cfg_name config, res_type = cfg_type config,
           res_endpoint = cfg_endpoint config, res_model = cfg_model config,
           status = maintenance, latencyMs = None, pingLatencyMs = None,
           checkedAt = now_iso env, message = JStr MSG_MAINTENANCE,
           res_groupName = (case cfg_groupName config of
                              None \<Rightarrow> None
                            | Some g \<Rightarrow> if g \<noteq> [] then Some g else None),
           officialStatus = None \<rparr> \<rparr>"

text \<open>From the history to the returned object (the second half of the function).\<close>

definition build_dashboard ::
  "js_builtins \<Rightarrow> group_env \<Rightarrow> js_string \<Rightarrow> ProviderConfig list \<Rightarrow> HistorySnapshot
     \<Rightarrow> GroupDashboardData"
where
  "build_dashboard js env targetGroupName maintenanceConfigs snapshot =
     (let mappedTimelines = map (mapped_timeline js env) snapshot;
          maintenanceTimelines = map (maintenance_timeline env) maintenanceConfigs;
          timelines = js_sort (\<lambda>a b. localeCompare js (res_name (latest a)) (res_name (latest b)))
                        (concat (map (\<lambda>t. case t of None \<Rightarrow> [] | Some timeline \<Rightarrow> [timeline]) mappedTimelines)
                         @ maintenanceTimelines);
          allEntries = sort_by_date js (concat (map items timelines))
      in \<lparr> groupName = targetGroupName,
           displayName = (if targetGroupName = UNGROUPED_KEY then UNGROUPED_DISPLAY_NAME
                          else targetGroupName),
           providerTimelines = timelines,
           lastUpdated = (case allEntries of [] \<Rightarrow> None | e # es \<Rightarrow> Some (checkedAt e)),
           total = length timelines,
           pollIntervalLabel = pollingIntervalLabel env,
           pollIntervalMs = pollingIntervalMs env,
           generatedAt = now_generated env \<rparr>)"

subsection \<open>\<open>loadGroupDashboardData\<close>\<close>

text \<open>\<open>xs.join("|")\<close>.\<close>

fun join_bar :: "js_string list \<Rightarrow> js_string" where
  "join_bar [] = []"
| "join_bar [x] = x"
| "join_bar (x # y # ys) = x @ lit ''|'' @ join_bar (y # ys)"

definition group_configs :: "js_string \<Rightarrow> ProviderConfig list \<Rightarrow> ProviderConfig list" where
  "group_configs targetGroupName allConfigs =
     filter (\<lambda>config.
               if targetGroupName = UNGROUPED_KEY
               then (case cfg_groupName config of None \<Rightarrow> True | Some g \<Rightarrow> g = [])
               else cfg_groupName config = Some targetGroupName) allConfigs"

definition cache_key :: "js_string \<Rightarrow> int \<Rightarrow> js_string list \<Rightarrow> js_string" where
  "cache_key targetGroupName interval allowedIds =
     (let providerKey = (if length allowedIds > 0 then join_bar (sort allowedIds)
                         else lit ''__empty__'')
      in lit ''group:'' @ targetGroupName @ lit '':'' @ show_int interval @ lit '':'' @ providerKey)"

text \<open>
  The whole function, for a call that no other call interleaves with. The result is the
  settlement of the returned promise (\<open>Inl\<close>: rejected; \<open>Inr None\<close>: \<open>null\<close>), the
  cache after the call, and what the call did to the outside. \<open>None\<close> for the refresh
  mode is an absent option, which stands for \<open>missing\<close>. The call of
  \<open>ensureOfficialStatusPoller()\<close> starts a timer elsewhere and is left out.
\<close>

definition loadGroupDashboardData ::
  "js_builtins \<Rightarrow> group_env \<Rightarrow> js_string \<Rightarrow> RefreshMode option \<Rightarrow> (js_string \<rightharpoonup> PingCacheEntry)
     \<Rightarrow> (js_error + GroupDashboardData option) \<times> (js_string \<rightharpoonup> PingCacheEntry) \<times> effects"
where
  "loadGroupDashboardData js env targetGroupName refreshModeOpt cache =
     (case db_configs env of
        Inl e \<Rightarrow> (Inl e, cache, no_effects)
      | Inr allConfigs \<Rightarrow>
          (let groupConfigs = group_configs targetGroupName allConfigs
           in if length groupConfigs = 0 then (Inr None, cache, no_effects)
              else
                (let maintenanceConfigs = filter (\<lambda>cfg. is_maintenance cfg) groupConfigs;
                     activeConfigs = filter (\<lambda>cfg. \<not> is_maintenance cfg) groupConfigs;
                     allowedIds = remdups (map cfg_id activeConfigs);
                     cacheKey = cache_key targetGroupName (pollingIntervalMs env) allowedIds;
                     (cacheEntry, cache1) = getPingCacheEntry cache cacheKey
                 in case readFilteredHistory env allowedIds of
                      Inl e \<Rightarrow> (Inl e, cache1, no_effects)
                    | Inr history0 \<Rightarrow>
                        (let refreshMode = (case refreshModeOpt of None \<Rightarrow> missing | Some m \<Rightarrow> m);
                             (refreshed, entry', eff) =
                               (if refreshMode = always
                                then refreshHistory js env activeConfigs allowedIds cacheEntry
                                else if refreshMode = missing \<and> length allowedIds > 0
                                        \<and> length history0 = 0
                                then refreshHistory js env activeConfigs allowedIds cacheEntry
                                else (Inr history0, cacheEntry, no_effects))
                         in case refreshed of
                              Inl e \<Rightarrow> (Inl e, cache1(cacheKey \<mapsto> entry'), eff)
                            | Inr history1 \<Rightarrow>
                                (Inr (Some (build_dashboard js env targetGroupName
                                              maintenanceConfigs history1)),
                                 cache1(cacheKey \<mapsto> entry'), eff)))))"

subsection \<open>Refreshes of one cache key, interleaved\<close>

text \<open>
  Calls of \<open>refreshHistory\<close> for one cache key interleave at their \<open>await\<close>s only.
  The state of the key: its cache entry, the promises that are made and not yet
  settled, the promises that are settled and whose maker has not yet run its
  \<open>finally\<close> block, the number of rounds of probes started so far, the number of the
  next promise, and the last reading of the clock.
\<close>

record key_state =
  entry :: PingCacheEntry
  pending :: "nat list"
  settled :: "nat list"
  rounds :: nat
  next_promise :: nat
  clock :: int

definition initial_state :: key_state where
  "initial_state =
     \<lparr> entry = new_entry, pending = [], settled = [], rounds = 0, next_promise = 0, clock = 0 \<rparr>"

text \<open>
  A call at time \<open>now\<close>, up to its first \<open>await\<close>: it takes one of the four ways,
  and on the last it starts the round of probes (the promise runs up to
  \<open>await runProviderChecks(activeConfigs)\<close>) and stores the promise in the entry.
\<close>

definition call_refresh :: "js_string list \<Rightarrow> int \<Rightarrow> int \<Rightarrow> key_state \<Rightarrow> refresh_branch \<times> key_state" where
  "call_refresh allowedIds interval now st =
     (case refresh_enter allowedIds interval now (entry st) of
        StartRound \<Rightarrow>
          (StartRound,
           st \<lparr> entry := (entry st) \<lparr> inflight := Some (next_promise st) \<rparr>,
                pending := next_promise st # pending st,
                rounds := Suc (rounds st),
                next_promise := Suc (next_promise st),
                clock := now \<rparr>)
      | branch \<Rightarrow> (branch, st \<lparr> clock := now \<rparr>))"

text \<open>
  The promise \<open>p\<close> ends at time \<open>now\<close>: with a snapshot it writes the entry, with an
  error it leaves the entry as it is.
\<close>

definition settle :: "nat \<Rightarrow> js_error + HistorySnapshot \<Rightarrow> int \<Rightarrow> key_state \<Rightarrow> key_state" where
  "settle p outcome now st =
     st \<lparr> entry := (case outcome of
                      Inl e \<Rightarrow> entry st
                    | Inr nextHistory \<Rightarrow> round_done nextHistory now (entry st)),
          pending := removeAll p (pending st),
          settled := p # settled st,
          clock := now \<rparr>"

definition run_finally :: "nat \<Rightarrow> key_state \<Rightarrow> key_state" where
  "run_finally p st =
     st \<lparr> entry := refresh_finally p (entry st), settled := removeAll p (settled st) \<rparr>"

text \<open>The states the key can be in, when the clock does not run backwards.\<close>

inductive reachable :: "js_string list \<Rightarrow> int \<Rightarrow> key_state \<Rightarrow> bool"
  for allowedIds :: "js_string list" and interval :: int
where
  start: "reachable allowedIds interval initial_state"
| call: "reachable allowedIds interval st \<Longrightarrow> clock st \<le> now
     \<Longrightarrow> reachable allowedIds interval (snd (call_refresh allowedIds interval now st))"
| settles: "reachable allowedIds interval st \<Longrightarrow> p \<in> set (pending st) \<Longrightarrow> clock st \<le> now
     \<Longrightarrow> reachable allowedIds interval (settle p outcome now st)"
| finalize: "reachable allowedIds interval st \<Longrightarrow> p \<in> set (settled st)
     \<Longrightarrow> reachable allowedIds interval (run_finally p st)"

text \<open>\<open>n\<close> calls at the times \<open>nows\<close>, none of them resumed yet.\<close>

fun calls :: "js_string list \<Rightarrow> int \<Rightarrow> int list \<Rightarrow> key_state \<Rightarrow> key_state" where
  "calls allowedIds interval [] st = st"
| "calls allowedIds interval (now # nows) st =
     calls allowedIds interval nows (snd (call_refresh allowedIds interval now st))"


section \<open>Sample inputs\<close>

text \<open>
  Stand-ins for the built-in functions in the examples below. They agree with the
  built-ins on every argument an example reaches: \<open>sample_parse\<close> knows the JSON
  texts of the examples (every other text the examples parse is not JSON),
  \<open>sample_compare\<close> compares code units, as \<open>localeCompare\<close> does on the names
  \<open>A\<close>, \<open>B\<close> and \<open>M\<close>, and \<open>sample_getTime\<close> knows two dates. Every date the
  examples sort is one of the two, so that no example reaches \<open>engine_order\<close>.
\<close>

definition openai_event :: js_string where
  "openai_event = lit ''{\"choices\":[{\"delta\":{\"content\":\"hi\"}}]}''"

definition anthropic_event :: js_string where
  "anthropic_event = lit ''{\"type\":\"content_block_delta\",\"delta\":{\"text\":\"hi\"}}''"

definition anthropic_ping :: js_string where
  "anthropic_ping = lit ''{\"type\":\"ping\",\"delta\":{\"text\":\"no\"}}''"

definition gemini_event :: js_string where
  "gemini_event = lit ''{\"candidates\":[{\"content\":{\"parts\":[{\"text\":\"hi\"}]}}]}''"

definition rate_limit_body :: js_string where
  "rate_limit_body = lit ''{\"error\":{\"message\":\"rate limited\"}}''"

definition plain_message_body :: js_string where
  "plain_message_body = lit ''{\"message\":\"oops\"}''"

definition sample_parse :: "js_string \<Rightarrow> jsval option" where
  "sample_parse s =
     (if s = openai_event then
        Some (JObj [(lit ''choices'',
                JArr [JObj [(lit ''delta'', JObj [(lit ''content'', JStr (lit ''hi''))])]])])
      else if s = anthropic_event then
        Some (JObj [(lit ''type'', JStr (lit ''content_block_delta'')),
                    (lit ''delta'', JObj [(lit ''text'', JStr (lit ''hi''))])])
      else if s = anthropic_ping then
        Some (JObj [(lit ''type'', JStr (lit ''ping'')),
                    (lit ''delta'', JObj [(lit ''text'', JStr (lit ''no''))])])
      else if s = gemini_event then
        Some (JObj [(lit ''candidates'',
                JArr [JObj [(lit ''content'',
                  JObj [(lit ''parts'', JArr [JObj [(lit ''text'', JStr (lit ''hi''))]])])]])])
      else if s = rate_limit_body then
        Some (JObj [(lit ''error'', JObj [(lit ''message'', JStr (lit ''rate limited''))])])
      else if s = plain_message_body then
        Some (JObj [(lit ''message'', JStr (lit ''oops''))])
      else None)"

definition sample_compare :: "js_string \<Rightarrow> js_string \<Rightarrow> int" where
  "sample_compare a b = (if a < b then - 1 else if a = b then 0 else 1)"

definition sample_getTime :: "js_string \<Rightarrow> int option" where
  "sample_getTime s =
     (if s = lit ''2025-01-01T00:00:00.000Z'' then Some 1735689600000
      else if s = lit ''2025-01-01T00:01:00.000Z'' then Some 1735689660000
      else None)"

definition sample_js :: js_builtins where
  "sample_js =
     \<lparr> JSON_parse = sample_parse,
       JSON_stringify = (\<lambda>v. lit ''null''),
       ToString = (\<lambda>v. None),
       localeCompare = sample_compare,
       Date_getTime = sample_getTime,
       engine_order = (\<lambda>times. [0..<length times]) \<rparr>"

definition config_a :: ProviderConfig where
  "config_a =
     \<lparr> cfg_id = lit ''a'', cfg_name = lit ''A'', cfg_type = openai,
       cfg_endpoint = lit ''https://api.openai.com/v1/chat/completions'',
       cfg_model = lit ''gpt-4o-mini'', cfg_apiKey = lit ''sk-a'',
       cfg_groupName = Some (lit ''main''), is_maintenance = False \<rparr>"

definition config_b :: ProviderConfig where
  "config_b =
     \<lparr> cfg_id = lit ''b'', cfg_name = lit ''B'', cfg_type = anthropic,
       cfg_endpoint = lit ''https://api.anthropic.com/v1/messages'',
       cfg_model = lit ''claude'', cfg_apiKey = lit ''sk-b'',
       cfg_groupName = Some (lit ''main''), is_maintenance = False \<rparr>"

definition config_m :: ProviderConfig where
  "config_m =
     \<lparr> cfg_id = lit ''m'', cfg_name = lit ''M'', cfg_type = gemini,
       cfg_endpoint = lit ''https://generativelanguage.googleapis.com/v1beta'',
       cfg_model = lit ''gemini-pro'', cfg_apiKey = lit ''sk-m'',
       cfg_groupName = Some (lit ''main''), is_maintenance = True \<rparr>"

definition openai_params :: stream_params where
  "openai_params =
     \<lparr> url = lit ''https://api.openai.com/v1/chat/completions'',
       displayEndpoint = Some (lit ''https://api.openai.com/v1/chat/completions''),
       parseStream = parseOpenAIStream \<rparr>"

definition AbortError :: js_error where
  "AbortError = JsError (lit ''AbortError'') (lit ''This operation was aborted'')"

text \<open>
  A 200 response whose stream is one event and the terminator, read to its end; the
  second reading of the clock is a parameter.
\<close>

definition good_stream :: reader where
  "good_stream =
     Reader [lit ''data: '' @ openai_event @ [10, 10] @ lit ''data: [DONE]'' @ [10, 10]] None"

definition env_ok :: "int \<Rightarrow> probe_env" where
  "env_ok finished =
     \<lparr> startedAt = 1000,
       fetched = FetchResolved
         \<lparr> status_code = 200, text_result = Inr [], body_reader = Some good_stream \<rparr>,
       nowAfter = finished,
       nowIso = lit ''2025-01-01T00:00:00.000Z'' \<rparr>"

text \<open>A 200 response whose stream stalls after its first event until the timeout aborts it.\<close>

definition env_stalled :: probe_env where
  "env_stalled =
     \<lparr> startedAt = 1000,
       fetched = FetchResolved
         \<lparr> status_code = 200, text_result = Inr [],
           body_reader = Some (Reader [lit ''data: '' @ openai_event @ [10, 10]]
                                  (Some AbortError)) \<rparr>,
       nowAfter = 16000,
       nowIso = lit ''2025-01-01T00:00:00.000Z'' \<rparr>"

text \<open>
  A 200 response whose stream holds one event and the terminator, and whose next read
  would reject: the OpenAI parser returns at the terminator and never makes that read.
\<close>

definition env_terminated :: probe_env where
  "env_terminated =
     \<lparr> startedAt = 1000,
       fetched = FetchResolved
         \<lparr> status_code = 200, text_result = Inr [],
           body_reader = Some (Reader [lit ''data: '' @ openai_event @ [10, 10]
                                         @ lit ''data: [DONE]'' @ [10, 10]]
                                  (Some AbortError)) \<rparr>,
       nowAfter = 4000,
       nowIso = lit ''2025-01-01T00:00:00.000Z'' \<rparr>"

text \<open>A request that fails with an error whose message is empty.\<close>

definition env_silent :: probe_env where
  "env_silent =
     \<lparr> startedAt = 1000,
       fetched = FetchRejected (JsError (lit ''Error'') []),
       nowAfter = 1200,
       nowIso = lit ''2025-01-01T00:00:00.000Z'' \<rparr>"

text \<open>An error response with the given status and body.\<close>

definition env_error :: "nat \<Rightarrow> js_string \<Rightarrow> probe_env" where
  "env_error code errorBody =
     \<lparr> startedAt = 1000,
       fetched = FetchResolved
         \<lparr> status_code = code, text_result = Inr errorBody, body_reader = None \<rparr>,
       nowAfter = 1250,
       nowIso = lit ''2025-01-01T00:00:00.000Z'' \<rparr>"

text \<open>Projections of a settled check, for statements about concrete runs.\<close>

definition result_status :: "js_error + CheckResult \<Rightarrow> HealthStatus option" where
  "result_status x = (case x of Inl e \<Rightarrow> None | Inr r \<Rightarrow> Some (status r))"

definition result_latency :: "js_error + CheckResult \<Rightarrow> int option" where
  "result_latency x = (case x of Inl e \<Rightarrow> None | Inr r \<Rightarrow> latencyMs r)"

definition result_message :: "js_error + CheckResult \<Rightarrow> jsval option" where
  "result_message x = (case x of Inl e \<Rightarrow> None | Inr r \<Rightarrow> Some (message r))"

text \<open>
  The two conditions of a probe that the properties below speak of: the response was
  2xx; and it was 2xx, had a body, and the parser returned. A parser returns when it has
  read the stream to its end, and the OpenAI parser also when it meets the terminator
  line; it does not return when a read of the stream rejects before that.
\<close>

definition got_2xx :: "probe_env \<Rightarrow> bool" where
  "got_2xx env =
     (case fetched env of
        FetchRejected e \<Rightarrow> False
      | FetchResolved response \<Rightarrow> response_ok response)"

definition parser_returned :: "js_builtins \<Rightarrow> stream_params \<Rightarrow> probe_env \<Rightarrow> bool" where
  "parser_returned js params env =
     (case fetched env of
        FetchRejected e \<Rightarrow> False
      | FetchResolved response \<Rightarrow>
          response_ok response \<and>
          (case body_reader response of
             None \<Rightarrow> False
           | Some rd \<Rightarrow> (case parseStream params js rd of Inl e \<Rightarrow> False | Inr text \<Rightarrow> True)))"

text \<open>
  The ways the \<open>try\<close> block of \<open>runStreamCheck\<close> throws \<open>err\<close>: \<open>fetch\<close> rejects
  (a network error, or the abort of the timeout); the body of an error response cannot
  be read; a 2xx response has no body; the parser's read of the stream rejects.
\<close>

definition probe_throws :: "js_builtins \<Rightarrow> stream_params \<Rightarrow> probe_env \<Rightarrow> js_error \<Rightarrow> bool" where
  "probe_throws js params env err =
     (case fetched env of
        FetchRejected e \<Rightarrow> err = e
      | FetchResolved response \<Rightarrow>
          if response_ok response then
            (case body_reader response of
               None \<Rightarrow> err = JsError (lit ''Error'') MSG_EMPTY_BODY
             | Some rd \<Rightarrow> parseStream params js rd = Inl err)
          else text_result response = Inl err)"

text \<open>The names in a batch, and the names and sizes of the timelines of a dashboard.\<close>

definition batch_names :: "js_error + CheckResult list \<Rightarrow> js_string list option" where
  "batch_names x = (case x of Inl e \<Rightarrow> None | Inr results \<Rightarrow> Some (map res_name results))"

definition loaded :: "(js_error + GroupDashboardData option) \<times> 'c \<times> effects \<Rightarrow> GroupDashboardData option" where
  "loaded x = (case fst x of Inl e \<Rightarrow> None | Inr d \<Rightarrow> d)"

definition loaded_effects :: "(js_error + GroupDashboardData option) \<times> 'c \<times> effects \<Rightarrow> effects" where
  "loaded_effects x = snd (snd x)"

definition timeline_summary :: "ProviderTimeline \<Rightarrow> js_string \<times> nat \<times> HealthStatus" where
  "timeline_summary t = (res_name (latest t), length (items t), status (latest t))"

text \<open>
  A group \<open>main\<close> of three configurations, one of them in maintenance, and a store
  with history for all three (the one in maintenance was probed before it was put in
  maintenance). Every probe of a round gets a 200 response and a stream that ends.
\<close>

definition result_at :: "ProviderConfig \<Rightarrow> js_string \<Rightarrow> CheckResult" where
  "result_at config time =
     \<lparr> res_id = cfg_id config, res_name = cfg_name config, res_type = cfg_type config,
       res_endpoint = cfg_endpoint config, res_model = cfg_model config,
       status = operational, latencyMs = Some 3000, pingLatencyMs = Some 20,
       checkedAt = time, message = JStr (lit ''ok''),
       res_groupName = cfg_groupName config, officialStatus = None \<rparr>"

definition sample_store :: HistorySnapshot where
  "sample_store =
     [(lit ''b'', [result_at config_b (lit ''2025-01-01T00:00:00.000Z'')]),
      (lit ''a'', [result_at config_a (lit ''2025-01-01T00:00:00.000Z''),
                   result_at config_a (lit ''2025-01-01T00:01:00.000Z'')]),
      (lit ''m'', [result_at config_m (lit ''2025-01-01T00:00:00.000Z'')])]"

definition sample_append :: "CheckResult list \<Rightarrow> js_error + HistorySnapshot" where
  "sample_append results =
     Inr (map (\<lambda>(id', rs). (id', filter (\<lambda>r. res_id r = id') results @ rs)) sample_store)"

definition sample_env :: group_env where
  "sample_env =
     \<lparr> db_configs = Inr [config_b, config_m, config_a],
       stored = Inr sample_store,
       store_append = sample_append,
       pollingIntervalMs = 60000,
       pollingIntervalLabel = lit ''60s'',
       official = (\<lambda>t. JUndefined),
       net = (\<lambda>i. env_ok 4000),
       awaited = Inr [],
       fresh_promise = 0,
       now_refresh = 1735689700000,
       now_done = 1735689704000,
       now_iso = lit ''2025-01-01T00:01:45.000Z'',
       now_generated = 1735689705000 \<rparr>"

text \<open>
  The same stores and configurations, read one minute later, when the poller of the
  official status has learnt a status for OpenAI.
\<close>

definition later_env :: group_env where
  "later_env =
     sample_env \<lparr> official := (\<lambda>t. if t = openai then JStr (lit ''degraded'') else JUndefined),
                  now_iso := lit ''2025-01-01T00:02:45.000Z'',
                  now_generated := 1735689765000 \<rparr>"

text \<open>
  What of a dashboard does not come from the configurations, the store and the polling
  settings: \<open>generatedAt\<close>, the \<open>officialStatus\<close> of every \<open>latest\<close>, and the
  \<open>checkedAt\<close> of the \<open>latest\<close> of a synthesized timeline (one without items).
  \<open>without_volatile\<close> blanks these fields and leaves every other field as it is.
\<close>

definition timeline_without_volatile :: "ProviderTimeline \<Rightarrow> ProviderTimeline" where
  "timeline_without_volatile t =
     t \<lparr> latest := (if items t = []
                       then (latest t) \<lparr> checkedAt := [], officialStatus := None \<rparr>
                       else (latest t) \<lparr> officialStatus := None \<rparr>) \<rparr>"

definition without_volatile :: "GroupDashboardData \<Rightarrow> GroupDashboardData" where
  "without_volatile d =
     d \<lparr> providerTimelines := map timeline_without_volatile (providerTimelines d),
         generatedAt := 0 \<rparr>"

text \<open>Projections of the timeline of a given name in a loaded dashboard.\<close>

definition latest_of ::
  "js_string \<Rightarrow> (js_error + GroupDashboardData option) \<times> 'c \<times> effects \<Rightarrow> CheckResult option"
where
  "latest_of name' x =
     (case loaded x of
        None \<Rightarrow> None
      | Some d \<Rightarrow>
          (case filter (\<lambda>t. res_name (latest t) = name') (providerTimelines d) of
             [] \<Rightarrow> None
           | t # ts \<Rightarrow> Some (latest t)))"

definition loaded_summary ::
  "(js_error + GroupDashboardData option) \<times> 'c \<times> effects
     \<Rightarrow> (js_string \<times> nat \<times> HealthStatus) list option"
where
  "loaded_summary x = map_option (\<lambda>d. map timeline_summary (providerTimelines d)) (loaded x)"

text \<open>
  A history table with three rows of configuration 1, inserted out of order, and one row
  of configuration 2.
\<close>

definition history_row :: "uuid \<Rightarrow> uuid \<Rightarrow> int \<Rightarrow> check_history_row" where
  "history_row i c t =
     \<lparr> h_id = i, h_config_id = c, h_status = lit ''operational'', h_latency_ms = Some 300,
       h_ping_latency_ms = None, h_checked_at = t, h_message = None \<rparr>"

definition sample_history :: "check_history_row list" where
  "sample_history =
     [history_row 1 1 10, history_row 2 1 30, history_row 3 2 10, history_row 4 1 20]"

definition sample_configs :: "check_configs_row list" where
  "sample_configs =
     [\<lparr> c_id = 1, c_name = lit ''B'', c_type = lit ''openai'', c_model = lit ''m1'',
        c_endpoint = lit ''https://one.example'', c_group_name = None \<rparr>,
      \<lparr> c_id = 2, c_name = lit ''A'', c_type = lit ''gemini'', c_model = lit ''m2'',
        c_endpoint = lit ''https://two.example'', c_group_name = None \<rparr>]"

text \<open>
  The key of one provider \<open>a\<close>, polled every minute: its state after a first call at
  time 100, and after the round of that call has ended at time 300 and the call has run
  its \<open>finally\<close> block.
\<close>

definition first_call :: key_state where
  "first_call = snd (call_refresh [lit ''a''] 60000 100 initial_state)"

definition round_over :: key_state where
  "round_over = run_finally 0 (settle 0 (Inr sample_store) 300 first_call)"

section \<open>Properties of one probe\<close>

lemmas sample_text_defs =
  openai_event_def anthropic_event_def anthropic_ping_def gemini_event_def
  rate_limit_body_def plain_message_body_def

lemmas sample_js_defs = sample_js_def sample_parse_def sample_text_defs

lemmas js_defs =
  lit_def startsWith_def trim_def js_whitespace_def opt_member_def opt_index0_def js_or_def
  append_text_def

lemma runStreamCheck_returns: "\<exists>r. runStreamCheck js config params env = Inr r"
  by (simp add: runStreamCheck_def split: sum.splits)

lemma try_when_returned:
  assumes "parser_returned js params env"
  shows "\<exists>r. runStreamCheck_try js config params env = Inr r
           \<and> latencyMs r = Some (nowAfter env - startedAt env)
           \<and> status r = (if nowAfter env - startedAt env \<le> 6000 then operational else degraded)"
  using assms
  by (auto simp: parser_returned_def runStreamCheck_try_def DEGRADED_THRESHOLD_MS_def Let_def
      split: fetch_outcome.splits option.splits sum.splits)

lemma try_when_not_returned:
  assumes "\<not> parser_returned js params env"
    and "runStreamCheck_try js config params env = Inr r"
  shows "status r = failed"
  using assms
  by (auto simp: parser_returned_def runStreamCheck_try_def Let_def
      split: fetch_outcome.splits option.splits sum.splits if_splits)

lemma stream_check_classification:
  "\<exists>r. runStreamCheck js config params env = Inr r
     \<and> (status r \<in> {operational, degraded} \<longleftrightarrow> parser_returned js params env)
     \<and> (status r = failed \<longleftrightarrow> \<not> parser_returned js params env)
     \<and> (parser_returned js params env \<longrightarrow>
          latencyMs r = Some (nowAfter env - startedAt env)
          \<and> (status r = operational \<longleftrightarrow> nowAfter env - startedAt env \<le> 6000)
          \<and> (status r = degraded \<longleftrightarrow> nowAfter env - startedAt env > 6000))"
proof (cases "parser_returned js params env")
  case True
  from try_when_returned[OF True, of config] obtain r where
    r: "runStreamCheck_try js config params env = Inr r"
      "latencyMs r = Some (nowAfter env - startedAt env)"
      "status r = (if nowAfter env - startedAt env \<le> 6000 then operational else degraded)"
    by blast
  have "runStreamCheck js config params env = Inr r"
    using r(1) by (simp add: runStreamCheck_def)
  with r True show ?thesis by auto
next
  case False
  show ?thesis
  proof (cases "runStreamCheck_try js config params env")
    case (Inl e)
    then show ?thesis using False by (simp add: runStreamCheck_def)
  next
    case (Inr r)
    then have "status r = failed" using try_when_not_returned[OF False] by blast
    then show ?thesis using False Inr by (simp add: runStreamCheck_def)
  qed
qed

lemma sdk_check_classification:
  "\<exists>r. checkOpenAI_sdk config env = Inr r
     \<and> (status r \<in> {operational, degraded} \<longleftrightarrow> sdk_result env = StreamOpened None)
     \<and> (status r = failed \<longleftrightarrow> sdk_result env \<noteq> StreamOpened None)
     \<and> (sdk_result env = StreamOpened None \<longrightarrow>
          latencyMs r = Some (sdk_nowAfter env - sdk_startedAt env)
          \<and> (status r = operational \<longleftrightarrow> sdk_nowAfter env - sdk_startedAt env \<le> 6000)
          \<and> (status r = degraded \<longleftrightarrow> sdk_nowAfter env - sdk_startedAt env > 6000))"
  by (auto simp: checkOpenAI_sdk_def checkOpenAI_sdk_try_def DEGRADED_THRESHOLD_MS_def Let_def
      split: sdk_outcome.splits option.splits)

text \<open>
  Claim C1, as the code has it. A check made by \<open>runStreamCheck\<close> always returns a
  result. Its status is \<open>operational\<close> or \<open>degraded\<close> exactly when the response was
  2xx, had a body, and the parser returned (it read the stream to its end, or, for the
  OpenAI parser, to the terminator line); in every other case, among them a 2xx response
  without a body and a 2xx response whose read rejects before the parser returns, the
  status is \<open>failed\<close>. When the parser returned, \<open>latencyMs\<close> is the difference of
  the two readings of the clock, which is not negative when the clock did not run
  backwards, and the status is \<open>operational\<close> for a latency of at most 6000 and
  \<open>degraded\<close> above. Of the check through the SDK the same holds with, in place of
  the parser that returned, a stream that the SDK opened and whose iteration ended
  without throwing.
\<close>

theorem probe_classification:
  "(\<exists>r. runStreamCheck js config params env = Inr r
      \<and> (status r \<in> {operational, degraded} \<longleftrightarrow> parser_returned js params env)
      \<and> (status r = failed \<longleftrightarrow> \<not> parser_returned js params env)
      \<and> (parser_returned js params env \<longrightarrow>
           latencyMs r = Some (nowAfter env - startedAt env)
           \<and> (startedAt env \<le> nowAfter env \<longrightarrow> 0 \<le> nowAfter env - startedAt env)
           \<and> (status r = operational \<longleftrightarrow> nowAfter env - startedAt env \<le> 6000)
           \<and> (status r = degraded \<longleftrightarrow> nowAfter env - startedAt env > 6000)))
   \<and> (\<exists>r. checkOpenAI_sdk config senv = Inr r
      \<and> (status r \<in> {operational, degraded} \<longleftrightarrow> sdk_result senv = StreamOpened None)
      \<and> (status r = failed \<longleftrightarrow> sdk_result senv \<noteq> StreamOpened None)
      \<and> (sdk_result senv = StreamOpened None \<longrightarrow>
           latencyMs r = Some (sdk_nowAfter senv - sdk_startedAt senv)
           \<and> (sdk_startedAt senv \<le> sdk_nowAfter senv
                \<longrightarrow> 0 \<le> sdk_nowAfter senv - sdk_startedAt senv)
           \<and> (status r = operational \<longleftrightarrow> sdk_nowAfter senv - sdk_startedAt senv \<le> 6000)
           \<and> (status r = degraded \<longleftrightarrow> sdk_nowAfter senv - sdk_startedAt senv > 6000)))"
proof
  from stream_check_classification[of js config params env]
  show "\<exists>r. runStreamCheck js config params env = Inr r
      \<and> (status r \<in> {operational, degraded} \<longleftrightarrow> parser_returned js params env)
      \<and> (status r = failed \<longleftrightarrow> \<not> parser_returned js params env)
      \<and> (parser_returned js params env \<longrightarrow>
           latencyMs r = Some (nowAfter env - startedAt env)
           \<and> (startedAt env \<le> nowAfter env \<longrightarrow> 0 \<le> nowAfter env - startedAt env)
           \<and> (status r = operational \<longleftrightarrow> nowAfter env - startedAt env \<le> 6000)
           \<and> (status r = degraded \<longleftrightarrow> nowAfter env - startedAt env > 6000))"
    by auto
next
  from sdk_check_classification[of config senv]
  show "\<exists>r. checkOpenAI_sdk config senv = Inr r
      \<and> (status r \<in> {operational, degraded} \<longleftrightarrow> sdk_result senv = StreamOpened None)
      \<and> (status r = failed \<longleftrightarrow> sdk_result senv \<noteq> StreamOpened None)
      \<and> (sdk_result senv = StreamOpened None \<longrightarrow>
           latencyMs r = Some (sdk_nowAfter senv - sdk_startedAt senv)
           \<and> (sdk_startedAt senv \<le> sdk_nowAfter senv
                \<longrightarrow> 0 \<le> sdk_nowAfter senv - sdk_startedAt senv)
           \<and> (status r = operational \<longleftrightarrow> sdk_nowAfter senv - sdk_startedAt senv \<le> 6000)
           \<and> (status r = degraded \<longleftrightarrow> sdk_nowAfter senv - sdk_startedAt senv > 6000))"
    by auto
qed

lemma good_stream_parsed: "parseOpenAIStream sample_js good_stream = Inr (lit ''hi'')"
  by (simp add: parseOpenAIStream_def good_stream_def openai_try_def sample_js_defs js_defs)

lemma env_terminated_parsed: "parser_returned sample_js openai_params env_terminated"
  by (simp add: parser_returned_def env_terminated_def openai_params_def response_ok_def
      parseOpenAIStream_def openai_try_def sample_js_defs js_defs)

lemma env_ok_parsed: "parser_returned sample_js openai_params (env_ok t)"
  by (simp add: parser_returned_def env_ok_def openai_params_def response_ok_def
      good_stream_parsed)

text \<open>
  The scenario of the specification: a 2xx answer after 3000 ms is \<open>operational\<close>, one
  after 6500 ms is \<open>degraded\<close>. A stream with the terminator line is
  \<open>operational\<close> although a read after the terminator would have rejected.
\<close>

theorem probe_classification_witness:
  "parser_returned sample_js openai_params (env_ok 4000)
   \<and> startedAt (env_ok 4000) \<le> nowAfter (env_ok 4000)
   \<and> result_status (runStreamCheck sample_js config_a openai_params (env_ok 4000))
       = Some operational
   \<and> result_latency (runStreamCheck sample_js config_a openai_params (env_ok 4000))
       = Some 3000
   \<and> result_status (runStreamCheck sample_js config_a openai_params (env_ok 7500))
       = Some degraded
   \<and> parser_returned sample_js openai_params env_terminated
   \<and> result_status (runStreamCheck sample_js config_a openai_params env_terminated)
       = Some operational
   \<and> result_status
        (checkOpenAI_sdk config_a
           \<lparr> sdk_startedAt = 0, sdk_result = StreamOpened None, sdk_nowAfter = 6500,
             sdk_nowIso = [] \<rparr>) = Some degraded"
proof -
  let ?senv = "\<lparr> sdk_startedAt = 0, sdk_result = StreamOpened None, sdk_nowAfter = 6500,
                  sdk_nowIso = [] \<rparr>"
  have t: "nowAfter (env_ok t) - startedAt (env_ok t) = t - 1000" for t
    by (simp add: env_ok_def)
  from probe_classification[of sample_js config_a openai_params "env_ok 4000" ?senv]
    env_ok_parsed[of 4000]
  have a: "result_status (runStreamCheck sample_js config_a openai_params (env_ok 4000))
             = Some operational
           \<and> result_latency (runStreamCheck sample_js config_a openai_params (env_ok 4000))
             = Some 3000
           \<and> result_status (checkOpenAI_sdk config_a ?senv) = Some degraded"
    by (auto simp: result_status_def result_latency_def t)
  from probe_classification[of sample_js config_a openai_params "env_ok 7500" ?senv]
    env_ok_parsed[of 7500]
  have b: "result_status (runStreamCheck sample_js config_a openai_params (env_ok 7500))
             = Some degraded"
    by (auto simp: result_status_def t)
  from probe_classification[of sample_js config_a openai_params env_terminated ?senv]
    env_terminated_parsed
  have c: "result_status (runStreamCheck sample_js config_a openai_params env_terminated)
             = Some operational"
    by (auto simp: result_status_def env_terminated_def)
  show ?thesis using a b c env_ok_parsed[of 4000] env_terminated_parsed
    by (simp add: env_ok_def)
qed

text \<open>
  The claim as stated fails: a 2xx response whose stream stalls until the timeout aborts
  the read gives the status \<open>failed\<close>.
\<close>

theorem probe_classification_counterexample:
  "got_2xx env_stalled
   \<and> result_status (runStreamCheck sample_js config_a openai_params env_stalled) = Some failed"
  by (simp add: got_2xx_def env_stalled_def response_ok_def result_status_def
      runStreamCheck_def runStreamCheck_try_def openai_params_def parseOpenAIStream_def
      openai_try_def AbortError_def sample_js_defs js_defs)

section \<open>Failures of a probe, and the batch\<close>

lemma try_throws: "probe_throws js params env err \<Longrightarrow> runStreamCheck_try js config params env = Inl err"
  by (auto simp: probe_throws_def runStreamCheck_try_def Let_def
      split: fetch_outcome.splits option.splits if_splits)

lemma runStreamCheck_id:
  "runStreamCheck js config params env = Inr r \<Longrightarrow> res_id r = cfg_id config \<and> res_name r = cfg_name config"
  by (auto simp: runStreamCheck_def runStreamCheck_try_def Let_def
      split: sum.splits fetch_outcome.splits option.splits if_splits)

lemma checkProvider_returns: "\<exists>r. checkProvider js config env = Inr r"
  by (cases "cfg_type config")
    (simp_all add: checkProvider_def checkOpenAI_def checkGemini_def checkAnthropic_def
      runStreamCheck_returns Let_def)

lemma checkProvider_id:
  "checkProvider js config env = Inr r \<Longrightarrow> res_id r = cfg_id config \<and> res_name r = cfg_name config"
  by (cases "cfg_type config")
    (auto simp: checkProvider_def checkOpenAI_def checkGemini_def checkAnthropic_def Let_def
      dest: runStreamCheck_id)

lemma check_caught_returns: "\<exists>r. check_caught js config env = Inr r"
  by (simp add: check_caught_def split: sum.splits)

lemma check_caught_id:
  "check_caught js config env = Inr r \<Longrightarrow> res_id r = cfg_id config \<and> res_name r = cfg_name config"
  by (auto simp: check_caught_def split: sum.splits dest: checkProvider_id)

lemma promise_all_settled:
  "list_all2 (\<lambda>p v. p = Inr v) ps vs \<Longrightarrow> promise_all ps = Inr vs"
  by (induction ps vs rule: list_all2_induct) simp_all

lemma mset_insert_by: "mset (insert_by cmp x xs) = add_mset x (mset xs)"
  by (induction xs) simp_all

lemma mset_js_sort: "mset (js_sort cmp xs) = mset xs"
  by (induction xs) (simp_all add: js_sort_def mset_insert_by)

lemma set_js_sort: "set (js_sort cmp xs) = set xs"
  using mset_js_sort[of cmp xs] by (metis set_mset_mset)

lemma length_js_sort: "length (js_sort cmp xs) = length xs"
  using mset_js_sort[of cmp xs] by (metis size_mset)

lemma batch_results_exist:
  "\<exists>rs. list_all2 (\<lambda>p v. p = Inr v)
           (map (\<lambda>(i, config). check_caught js config (probes i)) (enumerate n configs)) rs
        \<and> map res_id rs = map cfg_id configs \<and> map res_name rs = map cfg_name configs"
proof (induction configs arbitrary: n)
  case Nil
  then show ?case by simp
next
  case (Cons c cs)
  from Cons.IH[of "Suc n"] obtain rs where
    rs: "list_all2 (\<lambda>p v. p = Inr v)
           (map (\<lambda>(i, config). check_caught js config (probes i)) (enumerate (Suc n) cs)) rs"
      "map res_id rs = map cfg_id cs" "map res_name rs = map cfg_name cs"
    by blast
  from check_caught_returns obtain r where r: "check_caught js c (probes n) = Inr r" by blast
  from check_caught_id[OF r] have "res_id r = cfg_id c" "res_name r = cfg_name c" by simp_all
  with rs r have
    "list_all2 (\<lambda>p v. p = Inr v)
       (map (\<lambda>(i, config). check_caught js config (probes i)) (enumerate n (c # cs))) (r # rs)
     \<and> map res_id (r # rs) = map cfg_id (c # cs)
     \<and> map res_name (r # rs) = map cfg_name (c # cs)"
    by simp
  then show ?case by blast
qed

lemma runProviderChecks_returns:
  "\<exists>results. runProviderChecks js probes configs = Inr results
     \<and> length results = length configs
     \<and> mset (map res_id results) = mset (map cfg_id configs)
     \<and> mset (map res_name results) = mset (map cfg_name configs)"
proof (cases "configs = []")
  case True
  then show ?thesis by (simp add: runProviderChecks_def)
next
  case False
  from batch_results_exist[of js probes 0 configs] obtain rs where
    rs: "list_all2 (\<lambda>p v. p = Inr v)
           (map (\<lambda>(i, config). check_caught js config (probes i)) (enumerate 0 configs)) rs"
      "map res_id rs = map cfg_id configs" "map res_name rs = map cfg_name configs"
    by blast
  let ?sorted = "js_sort (\<lambda>a b. localeCompare js (res_name a) (res_name b)) rs"
  have run: "runProviderChecks js probes configs = Inr ?sorted"
    using False promise_all_settled[OF rs(1)] by (simp add: runProviderChecks_def)
  have "length rs = length configs"
    using rs(2) by (metis length_map)
  moreover have "mset (map res_id ?sorted) = mset (map cfg_id configs)"
    using rs(2) by (metis mset_js_sort mset_map)
  moreover have "mset (map res_name ?sorted) = mset (map cfg_name configs)"
    using rs(3) by (metis mset_js_sort mset_map)
  ultimately show ?thesis using run by (simp add: length_js_sort)
qed

text \<open>
  Claim C2, as the code has it. A check never throws. When the \<open>try\<close> block throws
  (network error, timeout, unreadable error body, empty body, failed read of the
  stream), the result has the status \<open>failed\<close>, no latency, and as message the timeout
  text for an \<open>AbortError\<close>, otherwise the text of the error, and the text for an
  unknown error when that text is empty. A batch never throws either, and it has one
  result for each configuration, under its id.
\<close>

theorem failures_are_results:
  "(\<exists>r. runStreamCheck js config params env = Inr r
      \<and> (probe_throws js params env err \<longrightarrow>
           status r = failed \<and> latencyMs r = None
           \<and> message r = JStr (if err_name err = lit ''AbortError'' then MSG_TIMEOUT
                               else if err_message err = [] then MSG_UNKNOWN
                               else err_message err)))
   \<and> (\<exists>r. checkProvider js config env = Inr r)
   \<and> (\<exists>results. runProviderChecks js probes configs = Inr results
      \<and> length results = length configs
      \<and> mset (map res_id results) = mset (map cfg_id configs))"
proof -
  have "\<exists>r. runStreamCheck js config params env = Inr r
      \<and> (probe_throws js params env err \<longrightarrow>
           status r = failed \<and> latencyMs r = None
           \<and> message r = JStr (if err_name err = lit ''AbortError'' then MSG_TIMEOUT
                               else if err_message err = [] then MSG_UNKNOWN
                               else err_message err))"
  proof (cases "probe_throws js params env err")
    case True
    from try_throws[OF True] show ?thesis
      by (simp add: runStreamCheck_def catch_message_def)
  next
    case False
    then show ?thesis using runStreamCheck_returns by simp
  qed
  moreover from runProviderChecks_returns[of js probes configs]
  have "\<exists>results. runProviderChecks js probes configs = Inr results
      \<and> length results = length configs
      \<and> mset (map res_id results) = mset (map cfg_id configs)"
    by blast
  ultimately show ?thesis using checkProvider_returns by blast
qed

lemma stalled_throws: "probe_throws sample_js openai_params env_stalled AbortError"
  by (simp add: probe_throws_def env_stalled_def response_ok_def openai_params_def
      parseOpenAIStream_def openai_try_def sample_js_defs js_defs)

text \<open>
  A stream that stalls until the timeout: the check returns a failed result with the
  timeout message; and a batch of two configurations has two results.
\<close>

theorem failures_are_results_witness:
  "probe_throws sample_js openai_params env_stalled AbortError
   \<and> result_status (runStreamCheck sample_js config_a openai_params env_stalled) = Some failed
   \<and> result_latency (runStreamCheck sample_js config_a openai_params env_stalled) = None
   \<and> result_message (runStreamCheck sample_js config_a openai_params env_stalled)
       = Some (JStr MSG_TIMEOUT)
   \<and> (case runProviderChecks sample_js (\<lambda>i. env_silent) [config_b, config_a] of
         Inl e \<Rightarrow> False
       | Inr results \<Rightarrow> length results = 2)"
  using failures_are_results[of sample_js config_a openai_params env_stalled AbortError
      "\<lambda>i. env_silent" "[config_b, config_a]"] stalled_throws
  by (auto simp: result_status_def result_latency_def result_message_def AbortError_def lit_def)

text \<open>
  The claim as stated fails where the error has no text: the message is then the text
  for an unknown error, not the (empty) text of the error.
\<close>

theorem failures_are_results_counterexample:
  "probe_throws sample_js openai_params env_silent (JsError (lit ''Error'') [])
   \<and> result_message (runStreamCheck sample_js config_a openai_params env_silent)
       = Some (JStr MSG_UNKNOWN)
   \<and> JStr MSG_UNKNOWN \<noteq> JStr (err_message (JsError (lit ''Error'') []))"
  by (simp add: probe_throws_def env_silent_def result_message_def runStreamCheck_def
      runStreamCheck_try_def catch_message_def MSG_UNKNOWN_def lit_def)

section \<open>Error responses\<close>

lemma extractMessage_unparsed:
  "body \<noteq> [] \<Longrightarrow> JSON_parse js body = None \<Longrightarrow> extractMessage js body = JStr (take 280 body)"
  by (simp add: extractMessage_def)

lemma error_response_result:
  assumes "fetched env = FetchResolved response" and "\<not> response_ok response"
    and "text_result response = Inr errorBody"
  shows "\<exists>r. runStreamCheck js config params env = Inr r \<and> status r = failed
           \<and> latencyMs r = Some (nowAfter env - startedAt env)
           \<and> message r = js_or (extractMessage js errorBody)
                          (JStr (lit ''HTTP '' @ show_nat (status_code response)))"
  using assms by (simp add: runStreamCheck_def runStreamCheck_try_def Let_def)

text \<open>
  Claim C5, as the code has it. An error response whose body can be read gives the
  status \<open>failed\<close> and the latency up to the response. For an empty body the message is
  \<open>HTTP\<close> and the status code. For a body that is not JSON it is the first 280 code
  units of the body. For a body that is JSON it is the first truthy one of
  \<open>error.message\<close>, \<open>error\<close>, \<open>message\<close> and the JSON text of the whole value.
\<close>

theorem error_response_message:
  assumes "fetched env = FetchResolved response" and "\<not> response_ok response"
    and "text_result response = Inr errorBody"
  shows "\<exists>r. runStreamCheck js config params env = Inr r \<and> status r = failed
           \<and> latencyMs r = Some (nowAfter env - startedAt env)
           \<and> (errorBody = [] \<longrightarrow>
                message r = JStr (lit ''HTTP '' @ show_nat (status_code response)))
           \<and> (errorBody \<noteq> [] \<and> JSON_parse js errorBody = None \<longrightarrow>
                message r = JStr (take 280 errorBody) \<and> length (take 280 errorBody) \<le> 280)
           \<and> (\<forall>parsed. errorBody \<noteq> [] \<and> JSON_parse js errorBody = Some parsed \<longrightarrow>
                (let error_message = opt_member (opt_member parsed (lit ''error'')) (lit ''message'');
                     error = opt_member parsed (lit ''error'');
                     plain_message = opt_member parsed (lit ''message'');
                     json_text = JSON_stringify js parsed
                 in message r =
                      (if truthy error_message then error_message
                       else if truthy error then error
                       else if truthy plain_message then plain_message
                       else if json_text \<noteq> [] then JStr json_text
                       else JStr (lit ''HTTP '' @ show_nat (status_code response)))))"
proof -
  from error_response_result[OF assms, of js config params] obtain r where
    r: "runStreamCheck js config params env = Inr r" "status r = failed"
      "latencyMs r = Some (nowAfter env - startedAt env)"
      "message r = js_or (extractMessage js errorBody)
                     (JStr (lit ''HTTP '' @ show_nat (status_code response)))"
    by blast
  have empty: "errorBody = [] \<longrightarrow>
      message r = JStr (lit ''HTTP '' @ show_nat (status_code response))"
    using r(4) by (simp add: extractMessage_def js_or_def)
  have raw: "errorBody \<noteq> [] \<and> JSON_parse js errorBody = None \<longrightarrow>
      message r = JStr (take 280 errorBody) \<and> length (take 280 errorBody) \<le> 280"
    using r(4) by (auto simp: extractMessage_unparsed js_or_def)
  have json: "\<forall>parsed. errorBody \<noteq> [] \<and> JSON_parse js errorBody = Some parsed \<longrightarrow>
                (let error_message = opt_member (opt_member parsed (lit ''error'')) (lit ''message'');
                     error = opt_member parsed (lit ''error'');
                     plain_message = opt_member parsed (lit ''message'');
                     json_text = JSON_stringify js parsed
                 in message r =
                      (if truthy error_message then error_message
                       else if truthy error then error
                       else if truthy plain_message then plain_message
                       else if json_text \<noteq> [] then JStr json_text
                       else JStr (lit ''HTTP '' @ show_nat (status_code response))))"
    using r(4) by (auto simp: extractMessage_def js_or_def Let_def)
  show ?thesis using r(1,2,3) empty raw json by blast
qed

text \<open>
  The scenario of the specification: a 429 response whose body carries
  \<open>error.message\<close> gives a failed result with that message.
\<close>

theorem error_response_message_witness:
  "fetched (env_error 429 rate_limit_body)
     = FetchResolved \<lparr> status_code = 429, text_result = Inr rate_limit_body, body_reader = None \<rparr>
   \<and> \<not> response_ok \<lparr> status_code = 429, text_result = Inr rate_limit_body, body_reader = None \<rparr>
   \<and> result_status (runStreamCheck sample_js config_a openai_params
        (env_error 429 rate_limit_body)) = Some failed
   \<and> result_latency (runStreamCheck sample_js config_a openai_params
        (env_error 429 rate_limit_body)) = Some 250
   \<and> result_message (runStreamCheck sample_js config_a openai_params
        (env_error 429 rate_limit_body)) = Some (JStr (lit ''rate limited''))"
proof -
  let ?response = "\<lparr> status_code = 429, text_result = Inr rate_limit_body, body_reader = None \<rparr>"
  have f: "fetched (env_error 429 rate_limit_body) = FetchResolved ?response"
    by (simp add: env_error_def)
  have nok: "\<not> response_ok ?response"
    by (simp add: response_ok_def)
  have t: "text_result ?response = Inr rate_limit_body"
    by simp
  have parsed: "JSON_parse sample_js rate_limit_body
      = Some (JObj [(lit ''error'', JObj [(lit ''message'', JStr (lit ''rate limited''))])])"
    by (simp add: sample_js_defs lit_def)
  have nonempty: "rate_limit_body \<noteq> []"
    by (simp add: rate_limit_body_def lit_def)
  from error_response_message[OF f nok t, of sample_js config_a openai_params] parsed nonempty
  show ?thesis
    using f nok
    by (auto simp: result_status_def result_latency_def result_message_def env_error_def
        opt_member_def lit_def Let_def)
qed

text \<open>
  The claim as stated fails for a body that is JSON without \<open>error.message\<close>: the
  message is taken from the parsed value, it is not the raw body.
\<close>

theorem error_response_message_counterexample:
  "\<not> response_ok \<lparr> status_code = 500, text_result = Inr plain_message_body, body_reader = None \<rparr>
   \<and> sample_parse plain_message_body = Some (JObj [(lit ''message'', JStr (lit ''oops''))])
   \<and> opt_member (opt_member (JObj [(lit ''message'', JStr (lit ''oops''))]) (lit ''error''))
        (lit ''message'') = JUndefined
   \<and> result_message (runStreamCheck sample_js config_a openai_params
        (env_error 500 plain_message_body)) = Some (JStr (lit ''oops''))
   \<and> lit ''oops'' \<noteq> take 280 plain_message_body"
  by (simp add: response_ok_def result_message_def runStreamCheck_def runStreamCheck_try_def
      env_error_def extractMessage_def sample_js_defs js_defs)

section \<open>The stream parsers\<close>

subsection \<open>A parser returns when the stream ends\<close>

lemma openai_loop_returns: "\<exists>t. openai_loop js full cs None = Inr t"
  by (induction cs arbitrary: full) (auto simp: Let_def split: flow.splits)

lemma anthropic_loop_returns: "\<exists>t. anthropic_loop js full buffer cs None = Inr t"
  by (induction cs arbitrary: full buffer) (auto simp: Let_def)

lemma gemini_loop_returns: "\<exists>t. gemini_loop js full buffer cs None = Inr t"
  by (induction cs arbitrary: full buffer) (auto simp: Let_def)

subsection \<open>A payload that does not parse is skipped\<close>

lemma openai_lines_skip:
  assumes "startsWith line (lit ''data: '')" and "drop 6 line \<noteq> lit ''[DONE]''"
    and "JSON_parse js (drop 6 line) = None"
  shows "openai_lines js full (pre @ line # post) = openai_lines js full (pre @ post)"
  using assms by (induction pre arbitrary: full) (simp_all add: openai_try_def Let_def)

lemma anthropic_lines_skip:
  assumes "JSON_parse js (drop 6 line) = None"
  shows "anthropic_lines js full (pre @ line # post) = anthropic_lines js full (pre @ post)"
  using assms by (induction pre arbitrary: full) (simp_all add: anthropic_try_def)

lemma gemini_objects_skip:
  assumes "JSON_parse js obj = None"
  shows "gemini_objects js full (pre @ obj # post) = gemini_objects js full (pre @ post)"
  using assms by (induction pre arbitrary: full) (simp_all add: gemini_try_def)

subsection \<open>The terminator of the OpenAI stream\<close>

lemma openai_lines_done:
  "lit ''data: [DONE]'' \<in> set lines \<Longrightarrow> \<exists>r. openai_lines js full lines = Return r"
proof (induction lines arbitrary: full)
  case Nil
  then show ?case by simp
next
  case (Cons l ls)
  show ?case
  proof (cases "l = lit ''data: [DONE]''")
    case True
    then show ?thesis by (simp add: lit_def startsWith_def)
  next
    case False
    with Cons.prems have "lit ''data: [DONE]'' \<in> set ls" by simp
    from Cons.IH[OF this] show ?thesis by (simp add: Let_def)
  qed
qed

lemma openai_loop_done:
  assumes "lit ''data: [DONE]'' \<in> set (filter (\<lambda>line. trim line \<noteq> []) (split_nl chunk))"
  shows "openai_loop js full (chunk # rest) ending = openai_loop js full [chunk] None"
proof -
  from openai_lines_done[OF assms] obtain r where
    "openai_lines js full (filter (\<lambda>line. trim line \<noteq> []) (split_nl chunk)) = Return r"
    by blast
  then show ?thesis by simp
qed

subsection \<open>The events of the Anthropic stream\<close>

lemma anthropic_try_other_type:
  assumes "JSON_parse js data = Some parsed"
    and "member parsed (lit ''type'') \<noteq> Inr (JStr (lit ''content_block_delta''))"
  shows "anthropic_try js full data = full"
  using assms by (auto simp: anthropic_try_def split: sum.splits)

text \<open>
  What holds of the loops over lines. On a stream that ends, each parser returns a text,
  whatever the chunks hold. In a list of lines, a payload that does not parse leaves the
  result as if its line were not there. The OpenAI parser returns at the terminator
  line: what follows it in the chunk, the later chunks and the end of the stream do not
  matter. The Anthropic parser adds nothing for an event whose type is not
  \<open>content_block_delta\<close>.
\<close>

lemma lines_skip_and_return:
  "(\<exists>t. parseOpenAIStream js (Reader cs None) = Inr t)
   \<and> (\<exists>t. parseAnthropicStream js (Reader cs None) = Inr t)
   \<and> (\<exists>t. parseGeminiStream js (Reader cs None) = Inr t)
   \<and> (JSON_parse js (drop 6 line) = None \<longrightarrow>
        (startsWith line (lit ''data: '') \<and> drop 6 line \<noteq> lit ''[DONE]'' \<longrightarrow>
           openai_lines js full (pre @ line # post) = openai_lines js full (pre @ post))
        \<and> anthropic_lines js full (pre @ line # post) = anthropic_lines js full (pre @ post))
   \<and> (JSON_parse js obj = None \<longrightarrow>
        gemini_objects js full (pre @ obj # post) = gemini_objects js full (pre @ post))
   \<and> (lit ''data: [DONE]'' \<in> set (filter (\<lambda>line. trim line \<noteq> []) (split_nl chunk)) \<longrightarrow>
        openai_loop js full (chunk # rest) ending = openai_loop js full [chunk] None)
   \<and> (JSON_parse js data = Some parsed
        \<and> member parsed (lit ''type'') \<noteq> Inr (JStr (lit ''content_block_delta'')) \<longrightarrow>
        anthropic_try js full data = full)"
  using openai_loop_returns[of js "[]" cs] anthropic_loop_returns[of js "[]" "[]" cs]
    gemini_loop_returns[of js "[]" "[]" cs]
    openai_lines_skip[of line js full pre post] anthropic_lines_skip[of js line full pre post]
    gemini_objects_skip[of js obj full pre post]
    openai_loop_done[of chunk js full rest ending]
    anthropic_try_other_type[of js data parsed full]
  by (simp add: parseOpenAIStream_def parseAnthropicStream_def parseGeminiStream_def)

lemmas parser_eval =
  parseOpenAIStream_def parseAnthropicStream_def parseGeminiStream_def
  openai_try_def anthropic_try_def gemini_try_def sample_js_defs js_defs

text \<open>
  A line that does not parse, between events that do; a chunk with the terminator in
  the middle, followed by a chunk and a failing read that are never looked at; and an
  Anthropic event of another type.
\<close>

lemma lines_skip_and_return_examples:
  "JSON_parse sample_js (drop 6 (lit ''data: {oops'')) = None
   \<and> startsWith (lit ''data: {oops'') (lit ''data: '')
   \<and> drop 6 (lit ''data: {oops'') \<noteq> lit ''[DONE]''
   \<and> openai_lines sample_js [] [lit ''data: {oops'', lit ''data: '' @ openai_event]
       = Continue (lit ''hi'')
   \<and> anthropic_lines sample_js [] [lit ''data: {oops'', lit ''data: '' @ anthropic_event]
       = lit ''hi''
   \<and> JSON_parse sample_js (lit ''{oops'') = None
   \<and> gemini_objects sample_js [] [lit ''{oops'', gemini_event] = lit ''hi''
   \<and> openai_loop sample_js []
        [lit ''data: '' @ openai_event @ [10] @ lit ''data: [DONE]'' @ [10] @ lit ''data: ''
           @ openai_event @ [10],
         lit ''data: '' @ openai_event @ [10]]
        (Some AbortError) = Inr (lit ''hi'')
   \<and> JSON_parse sample_js anthropic_ping
       = Some (JObj [(lit ''type'', JStr (lit ''ping'')),
                     (lit ''delta'', JObj [(lit ''text'', JStr (lit ''no''))])])
   \<and> anthropic_try sample_js [] anthropic_ping = []"
proof -
  let ?bad = "lit ''data: {oops''"
  let ?chunk = "lit ''data: '' @ openai_event @ [10] @ lit ''data: [DONE]'' @ [10]
                  @ lit ''data: '' @ openai_event @ [10]"
  let ?ping = "JObj [(lit ''type'', JStr (lit ''ping'')),
                     (lit ''delta'', JObj [(lit ''text'', JStr (lit ''no''))])]"
  have unparsed: "JSON_parse sample_js (drop 6 ?bad) = None"
    "JSON_parse sample_js (lit ''{oops'') = None"
    by (simp_all add: sample_js_defs lit_def)
  have shape: "startsWith ?bad (lit ''data: '')" "drop 6 ?bad \<noteq> lit ''[DONE]''"
    by (simp_all add: startsWith_def lit_def)
  have done_seen:
    "lit ''data: [DONE]'' \<in> set (filter (\<lambda>line. trim line \<noteq> []) (split_nl ?chunk))"
    by (simp add: lit_def openai_event_def trim_def js_whitespace_def)
  have ping: "JSON_parse sample_js anthropic_ping = Some ?ping"
    by (simp add: sample_js_defs lit_def)
  have other: "member ?ping (lit ''type'') \<noteq> Inr (JStr (lit ''content_block_delta''))"
    by (simp add: lit_def)
  have o: "openai_lines sample_js [] ([] @ [lit ''data: '' @ openai_event])
      = Continue (lit ''hi'')"
    by (simp add: parser_eval)
  have a: "anthropic_lines sample_js [] ([] @ [lit ''data: '' @ anthropic_event]) = lit ''hi''"
    by (simp add: parser_eval)
  have g: "gemini_objects sample_js [] ([] @ [gemini_event]) = lit ''hi''"
    by (simp add: parser_eval)
  have d: "openai_loop sample_js [] [?chunk] None = Inr (lit ''hi'')"
    by (simp add: parser_eval)
  from lines_skip_and_return[of sample_js "[]" ?bad "[]" "[]"
      "[lit ''data: '' @ openai_event]" "lit ''{oops''" ?chunk
      "[lit ''data: '' @ openai_event @ [10]]" "Some AbortError" anthropic_ping ?ping]
    unparsed shape done_seen ping other o d
  have 1: "openai_lines sample_js [] [?bad, lit ''data: '' @ openai_event] = Continue (lit ''hi'')"
    and 2: "openai_loop sample_js [] [?chunk, lit ''data: '' @ openai_event @ [10]]
              (Some AbortError) = Inr (lit ''hi'')"
    and 3: "anthropic_try sample_js [] anthropic_ping = []"
    by simp_all
  from lines_skip_and_return[of sample_js "[]" ?bad "[]" "[]"
      "[lit ''data: '' @ anthropic_event]" "lit ''{oops''" ?chunk
      "[]" None anthropic_ping ?ping]
    unparsed a
  have 4: "anthropic_lines sample_js [] [?bad, lit ''data: '' @ anthropic_event] = lit ''hi''"
    by simp
  from lines_skip_and_return[of sample_js "[]" ?bad "[]" "[]"
      "[gemini_event]" "lit ''{oops''" ?chunk "[]" None anthropic_ping ?ping]
    unparsed g
  have 5: "gemini_objects sample_js [] [lit ''{oops'', gemini_event] = lit ''hi''"
    by simp
  show ?thesis using unparsed shape ping 1 2 3 4 5 by simp
qed

subsection \<open>Chunk boundaries\<close>

text \<open>
  The Anthropic parser gives the same text however the stream is cut into chunks: it
  handles the complete lines of the whole text, in order.
\<close>

lemma split_nl_nonempty: "split_nl s \<noteq> []"
  by (induction s) (auto split: list.splits)

lemma split_nl_no_newline: "10 \<notin> set s \<Longrightarrow> split_nl s = [s]"
  by (induction s) auto

lemma last_split_nl_no_newline: "10 \<notin> set (last (split_nl s))"
  by (induction s) (auto simp: split_nl_nonempty split: list.splits)

lemma split_nl_append:
  "split_nl (xs @ ys) = butlast (split_nl xs) @ split_nl (last (split_nl xs) @ ys)"
proof (induction xs)
  case Nil
  then show ?case by simp
next
  case (Cons c xs)
  show ?case
  proof (cases "c = 10")
    case True
    then show ?thesis using Cons.IH by (simp add: split_nl_nonempty)
  next
    case False
    obtain l ls where s: "split_nl xs = l # ls"
      using split_nl_nonempty[of xs] by (cases "split_nl xs") auto
    show ?thesis
    proof (cases ls)
      case Nil
      with s False Cons.IH show ?thesis by simp
    next
      case (Cons m ms)
      with s False Cons.IH show ?thesis
        by (simp split: list.splits)
    qed
  qed
qed

lemma anthropic_lines_append:
  "anthropic_lines js full (as @ bs) = anthropic_lines js (anthropic_lines js full as) bs"
  by (induction as arbitrary: full) simp_all

lemma anthropic_loop_whole:
  "10 \<notin> set buffer \<Longrightarrow>
   anthropic_loop js full buffer cs None
     = Inr (anthropic_lines js full (butlast (split_nl (buffer @ concat cs))))"
proof (induction cs arbitrary: full buffer)
  case Nil
  then show ?case by (simp add: split_nl_no_newline)
next
  case (Cons c cs)
  let ?lines = "split_nl (buffer @ c)"
  have "split_nl (buffer @ concat (c # cs))
      = butlast ?lines @ split_nl (last ?lines @ concat cs)"
    using split_nl_append[of "buffer @ c" "concat cs"] by simp
  then have "butlast (split_nl (buffer @ concat (c # cs)))
      = butlast ?lines @ butlast (split_nl (last ?lines @ concat cs))"
    by (simp add: butlast_append split_nl_nonempty)
  then show ?case
    using Cons.IH[OF last_split_nl_no_newline, of "anthropic_lines js full (butlast ?lines)" "buffer @ c"]
    by (simp add: Let_def anthropic_lines_append)
qed

lemma anthropic_chunking_invariant:
  "concat cs = concat cs' \<Longrightarrow>
   parseAnthropicStream js (Reader cs None) = parseAnthropicStream js (Reader cs' None)"
  by (simp add: parseAnthropicStream_def anthropic_loop_whole)

text \<open>
  Claim C4 fails for the other two parsers. The OpenAI parser keeps no buffer: a line cut
  by a chunk boundary is lost. The Gemini parser drops the newline of a buffer that ends
  in one, so that a chunk boundary just after a newline glues two objects together and
  both are lost.
\<close>

theorem chunking_changes_result:
  "take 16 (lit ''data: '' @ openai_event @ [10]) @ drop 16 (lit ''data: '' @ openai_event @ [10])
     = lit ''data: '' @ openai_event @ [10]
   \<and> parseOpenAIStream sample_js (Reader [lit ''data: '' @ openai_event @ [10]] None)
       = Inr (lit ''hi'')
   \<and> parseOpenAIStream sample_js
        (Reader [take 16 (lit ''data: '' @ openai_event @ [10]),
                 drop 16 (lit ''data: '' @ openai_event @ [10])] None)
       = Inr []
   \<and> concat [gemini_event @ [10], gemini_event @ [10]] = gemini_event @ [10] @ gemini_event @ [10]
   \<and> parseGeminiStream sample_js (Reader [gemini_event @ [10] @ gemini_event @ [10]] None)
       = Inr (lit ''hihi'')
   \<and> parseGeminiStream sample_js (Reader [gemini_event @ [10], gemini_event @ [10]] None)
       = Inr []
   \<and> parseAnthropicStream sample_js
        (Reader [take 16 (lit ''data: '' @ anthropic_event @ [10]),
                 drop 16 (lit ''data: '' @ anthropic_event @ [10])] None)
       = Inr (lit ''hi'')"
  by (simp add: parser_eval)

subsection \<open>Skipping at the level of the parsers\<close>

text \<open>
  For the OpenAI parser, a chunk that is one line with a payload that does not parse
  can be put anywhere among the chunks without a change of the result. For the Anthropic
  parser, such a line can be put at any line boundary of the text.
\<close>

lemma split_nl_line: "10 \<notin> set line \<Longrightarrow> split_nl (line @ 10 # rest) = line # split_nl rest"
  by (induction line) (auto split: list.splits)

lemma trim_data_line: "startsWith line (lit ''data: '') \<Longrightarrow> trim line \<noteq> []"
proof -
  assume "startsWith line (lit ''data: '')"
  then obtain rest where line: "line = 100 # rest"
    by (cases line) (auto simp: startsWith_def lit_def)
  have "\<not> js_whitespace 100" by (simp add: js_whitespace_def)
  then have "dropWhile js_whitespace line = line" by (simp add: line)
  moreover have "dropWhile js_whitespace (rev line) \<noteq> []"
    using \<open>\<not> js_whitespace 100\<close> by (auto simp: line dropWhile_eq_Nil_conv)
  ultimately show ?thesis by (simp add: trim_def)
qed

lemma openai_chunk_skipped:
  assumes "10 \<notin> set line" and "startsWith line (lit ''data: '')"
    and "drop 6 line \<noteq> lit ''[DONE]''" and "JSON_parse js (drop 6 line) = None"
  shows "openai_loop js full (before @ (line @ [10]) # after) ending
           = openai_loop js full (before @ after) ending"
proof (induction before arbitrary: full)
  case Nil
  have lines: "split_nl (line @ [10]) = [line, []]"
    using split_nl_line[OF assms(1), of "[]"] by simp
  have "trim [] = []" by (simp add: trim_def)
  then have "openai_lines js full (filter (\<lambda>l. trim l \<noteq> []) [line, []]) = Continue full"
    using assms(2,3,4) trim_data_line[OF assms(2)] by (simp add: openai_try_def Let_def)
  then show ?case by (simp add: lines)
next
  case (Cons c cs)
  then show ?case by (simp add: Let_def split: flow.splits)
qed

lemma openai_parser_skips:
  assumes "10 \<notin> set line" and "startsWith line (lit ''data: '')"
    and "drop 6 line \<noteq> lit ''[DONE]''" and "JSON_parse js (drop 6 line) = None"
  shows "parseOpenAIStream js (Reader (before @ (line @ [10]) # after) ending)
           = parseOpenAIStream js (Reader (before @ after) ending)"
  using openai_chunk_skipped[OF assms] by (simp add: parseOpenAIStream_def)

lemma split_nl_ends_in_newline: "split_nl (a @ [10]) = split_nl a @ [[]]"
  by (induction a) (auto simp: split_nl_nonempty split: list.splits)

lemma anthropic_parser_skips:
  assumes "10 \<notin> set line" and "JSON_parse js (drop 6 line) = None"
    and "a = [] \<or> last a = 10"
  shows "parseAnthropicStream js (Reader [a @ line @ [10] @ b] None)
           = parseAnthropicStream js (Reader [a @ b] None)"
proof -
  have boundary: "butlast (split_nl (a @ rest)) = butlast (split_nl a) @ butlast (split_nl rest)"
    for rest
  proof (cases "a = []")
    case True
    then show ?thesis by simp
  next
    case False
    with assms(3) obtain a' where a: "a = a' @ [10]"
      by (metis append_butlast_last_id)
    have "last (split_nl a) = []"
      by (simp add: a split_nl_ends_in_newline)
    then show ?thesis
      using split_nl_append[of a rest] by (simp add: butlast_append split_nl_nonempty)
  qed
  have "butlast (split_nl (a @ line @ [10] @ b))
      = butlast (split_nl a) @ line # butlast (split_nl b)"
    using boundary[of "line @ [10] @ b"] split_nl_line[OF assms(1), of b]
    by (simp add: split_nl_nonempty)
  moreover have "butlast (split_nl (a @ b)) = butlast (split_nl a) @ butlast (split_nl b)"
    by (rule boundary)
  ultimately show ?thesis
    by (simp add: parseAnthropicStream_def anthropic_loop_whole anthropic_lines_skip[OF assms(2)])
qed

text \<open>
  Claim C9 fails for the Gemini parser. A line that does not parse is skipped when the
  event after it comes in the same chunk; when the chunk ends after the newline of that
  line, the line is carried over without its newline, the event of the next chunk is
  glued to it, and the event is lost with it.
\<close>

theorem gemini_bad_line_takes_next_event:
  "JSON_parse sample_js (lit ''{oops'') = None
   \<and> JSON_parse sample_js gemini_event
       = Some (JObj [(lit ''candidates'',
                 JArr [JObj [(lit ''content'',
                   JObj [(lit ''parts'', JArr [JObj [(lit ''text'', JStr (lit ''hi''))]])])]])])
   \<and> parseGeminiStream sample_js (Reader [gemini_event @ [10]] None) = Inr (lit ''hi'')
   \<and> parseGeminiStream sample_js (Reader [lit ''{oops'' @ [10] @ gemini_event @ [10]] None)
       = Inr (lit ''hi'')
   \<and> parseGeminiStream sample_js (Reader [lit ''{oops'' @ [10], gemini_event @ [10]] None)
       = Inr []"
  by (simp add: parser_eval)

section \<open>The order of the output\<close>

text \<open>
  A comparator is consistent when it is total and transitive; \<open>localeCompare\<close> is.
\<close>

lemma set_insert_by: "set (insert_by cmp x xs) = insert x (set xs)"
  using mset_insert_by[of cmp x xs] by (metis set_mset_add_mset_insert set_mset_mset)

lemma sorted_insert_by:
  assumes total: "\<And>a b. cmp a b \<le> 0 \<or> cmp b a \<le> 0"
    and trans: "\<And>a b c. cmp a b \<le> 0 \<Longrightarrow> cmp b c \<le> 0 \<Longrightarrow> cmp a c \<le> 0"
    and sorted: "sorted_wrt (\<lambda>a b. cmp a b \<le> 0) xs"
  shows "sorted_wrt (\<lambda>a b. cmp a b \<le> 0) (insert_by cmp x xs)"
  using sorted
proof (induction xs)
  case Nil
  then show ?case by simp
next
  case (Cons y ys)
  show ?case
  proof (cases "cmp x y \<le> 0")
    case True
    then have "\<forall>z\<in>set ys. cmp x z \<le> 0"
      using Cons.prems trans by auto
    with True Cons.prems show ?thesis by simp
  next
    case False
    then have "cmp y x \<le> 0" using total[of x y] by simp
    with False Cons show ?thesis by (auto simp: set_insert_by)
  qed
qed

lemma sorted_js_sort:
  assumes "\<And>a b. cmp a b \<le> 0 \<or> cmp b a \<le> 0"
    and "\<And>a b c. cmp a b \<le> 0 \<Longrightarrow> cmp b c \<le> 0 \<Longrightarrow> cmp a c \<le> 0"
  shows "sorted_wrt (\<lambda>a b. cmp a b \<le> 0) (js_sort cmp xs)"
proof (induction xs)
  case Nil
  then show ?case by (simp add: js_sort_def)
next
  case (Cons x xs)
  have "js_sort cmp (x # xs) = insert_by cmp x (js_sort cmp xs)"
    by (simp add: js_sort_def)
  then show ?case using sorted_insert_by[OF assms Cons.IH] by simp
qed

lemma sorted_js_sort_by_name:
  assumes total: "\<forall>a b. localeCompare js a b \<le> 0 \<or> localeCompare js b a \<le> 0"
    and trans: "\<forall>a b c. localeCompare js a b \<le> 0 \<and> localeCompare js b c \<le> 0
                  \<longrightarrow> localeCompare js a c \<le> 0"
  shows "sorted_wrt (\<lambda>a b. localeCompare js (f a) (f b) \<le> 0)
           (js_sort (\<lambda>a b. localeCompare js (f a) (f b)) xs)"
proof (rule sorted_js_sort)
  show "localeCompare js (f a) (f b) \<le> 0 \<or> localeCompare js (f b) (f a) \<le> 0" for a b
    using total by blast
  show "localeCompare js (f a) (f b) \<le> 0 \<Longrightarrow> localeCompare js (f b) (f c) \<le> 0
          \<Longrightarrow> localeCompare js (f a) (f c) \<le> 0" for a b c
    using trans by blast
qed

lemma providerTimelines_build:
  "providerTimelines (build_dashboard js env target maintenanceConfigs snapshot)
     = js_sort (\<lambda>a b. localeCompare js (res_name (latest a)) (res_name (latest b)))
         (concat (map (\<lambda>t. case t of None \<Rightarrow> [] | Some timeline \<Rightarrow> [timeline])
                    (map (mapped_timeline js env) snapshot))
          @ map (maintenance_timeline env) maintenanceConfigs)"
  by (simp add: build_dashboard_def Let_def)

lemma loaded_is_built:
  assumes "loaded (loadGroupDashboardData js env target mode cache) = Some data"
  shows "\<exists>allConfigs snapshot. db_configs env = Inr allConfigs
           \<and> data = build_dashboard js env target
                      (filter (\<lambda>cfg. is_maintenance cfg) (group_configs target allConfigs))
                      snapshot"
  using assms
  by (auto simp: loaded_def loadGroupDashboardData_def Let_def
      split: sum.splits if_splits prod.splits)

text \<open>
  Claim C10. With a consistent \<open>localeCompare\<close>, the batch of \<open>runProviderChecks\<close>
  is in ascending order of the names, and so are the timelines of every dashboard that
  \<open>loadGroupDashboardData\<close> returns. The batch is the sorted list of the results in the
  order of the configurations: the order in which the probes end does not enter.
\<close>

theorem output_sorted_by_name:
  assumes "\<forall>a b. localeCompare js a b \<le> 0 \<or> localeCompare js b a \<le> 0"
    and "\<forall>a b c. localeCompare js a b \<le> 0 \<and> localeCompare js b c \<le> 0
           \<longrightarrow> localeCompare js a c \<le> 0"
  shows "(\<exists>results. runProviderChecks js probes configs = Inr results
            \<and> sorted_wrt (\<lambda>a b. localeCompare js (res_name a) (res_name b) \<le> 0) results)
         \<and> (\<forall>data. loaded (loadGroupDashboardData js env target mode cache) = Some data \<longrightarrow>
              sorted_wrt (\<lambda>a b. localeCompare js (res_name (latest a)) (res_name (latest b)) \<le> 0)
                (providerTimelines data))"
proof
  show "\<exists>results. runProviderChecks js probes configs = Inr results
            \<and> sorted_wrt (\<lambda>a b. localeCompare js (res_name a) (res_name b) \<le> 0) results"
  proof (cases "configs = []")
    case True
    then show ?thesis by (simp add: runProviderChecks_def)
  next
    case False
    from batch_results_exist[of js probes 0 configs] obtain rs where
      "list_all2 (\<lambda>p v. p = Inr v)
         (map (\<lambda>(i, config). check_caught js config (probes i)) (enumerate 0 configs)) rs"
      by blast
    from promise_all_settled[OF this] False
    have "runProviderChecks js probes configs
        = Inr (js_sort (\<lambda>a b. localeCompare js (res_name a) (res_name b)) rs)"
      by (simp add: runProviderChecks_def)
    then show ?thesis using sorted_js_sort_by_name[OF assms, of res_name rs] by simp
  qed
next
  show "\<forall>data. loaded (loadGroupDashboardData js env target mode cache) = Some data \<longrightarrow>
          sorted_wrt (\<lambda>a b. localeCompare js (res_name (latest a)) (res_name (latest b)) \<le> 0)
            (providerTimelines data)"
  proof (intro allI impI)
    fix data
    assume "loaded (loadGroupDashboardData js env target mode cache) = Some data"
    from loaded_is_built[OF this] obtain allConfigs snapshot where
      "data = build_dashboard js env target
                (filter (\<lambda>cfg. is_maintenance cfg) (group_configs target allConfigs)) snapshot"
      by blast
    then show "sorted_wrt
        (\<lambda>a b. localeCompare js (res_name (latest a)) (res_name (latest b)) \<le> 0)
        (providerTimelines data)"
      using sorted_js_sort_by_name[OF assms, of "\<lambda>t. res_name (latest t)"]
      by (simp add: providerTimelines_build)
  qed
qed

lemma sample_compare_le: "sample_compare a b \<le> 0 \<longleftrightarrow> a \<le> b"
  by (auto simp: sample_compare_def)

lemma sample_batch_names:
  "batch_names (runProviderChecks sample_js (\<lambda>i. env_silent) [config_b, config_a])
     = Some [lit ''A'', lit ''B'']"
  by (simp add: batch_names_def runProviderChecks_def check_caught_def checkProvider_def
      checkOpenAI_def checkAnthropic_def runStreamCheck_def runStreamCheck_try_def
      env_silent_def config_a_def config_b_def js_sort_def sample_js_def sample_compare_def
      lit_def enumerate_eq_zip)

text \<open>
  A batch probed in the order \<open>B\<close>, \<open>A\<close> comes back in the order \<open>A\<close>, \<open>B\<close>.
\<close>

theorem output_sorted_by_name_witness:
  "batch_names (runProviderChecks sample_js (\<lambda>i. env_silent) [config_b, config_a])
     = Some [lit ''A'', lit ''B'']
   \<and> (case runProviderChecks sample_js (\<lambda>i. env_silent) [config_b, config_a] of
         Inl e \<Rightarrow> False
       | Inr results \<Rightarrow>
           sorted_wrt (\<lambda>a b. localeCompare sample_js (res_name a) (res_name b) \<le> 0) results)"
proof -
  have cmp: "localeCompare sample_js = sample_compare"
    by (simp add: sample_js_def)
  have total: "\<forall>a b. localeCompare sample_js a b \<le> 0 \<or> localeCompare sample_js b a \<le> 0"
    unfolding cmp sample_compare_le by auto
  have trans: "\<forall>a b c. localeCompare sample_js a b \<le> 0 \<and> localeCompare sample_js b c \<le> 0
                 \<longrightarrow> localeCompare sample_js a c \<le> 0"
    unfolding cmp sample_compare_le by auto
  from output_sorted_by_name[OF total trans, of "\<lambda>i. env_silent" "[config_b, config_a]"
      sample_env "lit ''main''" "Some never" Map.empty]
  obtain results where
    "runProviderChecks sample_js (\<lambda>i. env_silent) [config_b, config_a] = Inr results"
    "sorted_wrt (\<lambda>a b. localeCompare sample_js (res_name a) (res_name b) \<le> 0) results"
    by blast
  then show ?thesis using sample_batch_names by simp
qed

section \<open>The group dashboard\<close>

subsection \<open>What a load does to the outside\<close>

lemma refresh_round_effects:
  assumes "refresh_round js env activeConfigs allowedIds = (res, eff)"
  shows "probed eff = [activeConfigs]
         \<and> (\<forall>rs\<in>set (written eff). runProviderChecks js (net env) activeConfigs = Inr rs)"
  using assms
  by (auto simp: refresh_round_def split: sum.splits if_splits)

lemma refreshHistory_effects:
  assumes "refreshHistory js env activeConfigs allowedIds cacheEntry = (res, entry', eff)"
  shows "set (probed eff) \<subseteq> {activeConfigs}
         \<and> (\<forall>rs\<in>set (written eff). runProviderChecks js (net env) activeConfigs = Inr rs)"
proof (cases "refresh_enter allowedIds (pollingIntervalMs env) (now_refresh env) cacheEntry")
  case StartRound
  obtain res0 eff0 where round: "refresh_round js env activeConfigs allowedIds = (res0, eff0)"
    by (cases "refresh_round js env activeConfigs allowedIds") auto
  with StartRound assms have "eff = eff0"
    by (auto simp: refreshHistory_def Let_def split: sum.splits)
  with refresh_round_effects[OF round] show ?thesis by simp
qed (use assms in \<open>auto simp: refreshHistory_def no_effects_def\<close>)

lemma load_effects:
  assumes "db_configs env = Inr allConfigs"
  shows "set (probed (loaded_effects (loadGroupDashboardData js env target mode cache)))
           \<subseteq> {filter (\<lambda>cfg. \<not> is_maintenance cfg) (group_configs target allConfigs)}
         \<and> (\<forall>rs\<in>set (written (loaded_effects (loadGroupDashboardData js env target mode cache))).
               runProviderChecks js (net env)
                 (filter (\<lambda>cfg. \<not> is_maintenance cfg) (group_configs target allConfigs))
               = Inr rs)"
proof -
  let ?active = "filter (\<lambda>cfg. \<not> is_maintenance cfg) (group_configs target allConfigs)"
  let ?allowed = "remdups (map cfg_id ?active)"
  let ?key = "cache_key target (pollingIntervalMs env) ?allowed"
  obtain res entry' eff where
    r: "refreshHistory js env ?active ?allowed (fst (getPingCacheEntry cache ?key))
          = (res, entry', eff)"
    by (metis prod_cases3)
  have "loaded_effects (loadGroupDashboardData js env target mode cache) = no_effects
        \<or> loaded_effects (loadGroupDashboardData js env target mode cache) = eff"
    using assms r
    by (auto simp: loaded_effects_def loadGroupDashboardData_def Let_def
        split: sum.splits prod.splits if_splits)
  with refreshHistory_effects[OF r] show ?thesis
    by (auto simp: no_effects_def)
qed

lemma load_never_null:
  assumes "db_configs env = Inr allConfigs" and "c \<in> set (group_configs target allConfigs)"
  shows "fst (loadGroupDashboardData js env target mode cache) \<noteq> Inr None"
proof -
  have "length (group_configs target allConfigs) \<noteq> 0" using assms(2) by auto
  then show ?thesis
    using assms(1)
    by (auto simp: loadGroupDashboardData_def Let_def split: sum.splits prod.splits)
qed

subsection \<open>Configurations in maintenance\<close>

lemma maintenance_timeline_fields:
  "tl_id (maintenance_timeline env c) = cfg_id c
   \<and> items (maintenance_timeline env c) = []
   \<and> status (latest (maintenance_timeline env c)) = maintenance
   \<and> res_name (latest (maintenance_timeline env c)) = cfg_name c"
  by (simp add: maintenance_timeline_def attach_official_def Let_def)

lemma maintenance_timeline_present:
  assumes "c \<in> set maintenanceConfigs"
  shows "maintenance_timeline env c
           \<in> set (providerTimelines (build_dashboard js env target maintenanceConfigs snapshot))"
  using assms by (simp add: providerTimelines_build set_js_sort)

text \<open>
  Claim C7. Let \<open>c\<close> be a configuration of the group that is in maintenance. Then the
  load never returns \<open>null\<close>; every dashboard it returns has a timeline for \<open>c\<close> with
  no items and a latest result of status \<open>maintenance\<close>; no list of configurations
  handed to \<open>runProviderChecks\<close> holds \<open>c\<close> or any configuration in maintenance; and
  every result handed to \<open>appendHistory\<close> is the result of a configuration of the
  group that is not in maintenance, so that, ids being unique, none is a result of \<open>c\<close>.
\<close>

theorem maintenance_never_probed:
  assumes "db_configs env = Inr allConfigs"
    and "c \<in> set (group_configs target allConfigs)"
    and "is_maintenance c"
  shows "fst (loadGroupDashboardData js env target mode cache) \<noteq> Inr None
         \<and> (\<forall>data. loaded (loadGroupDashboardData js env target mode cache) = Some data \<longrightarrow>
              (\<exists>t\<in>set (providerTimelines data).
                 tl_id t = cfg_id c \<and> items t = [] \<and> status (latest t) = maintenance
                 \<and> res_name (latest t) = cfg_name c))
         \<and> (\<forall>cfgs\<in>set (probed (loaded_effects (loadGroupDashboardData js env target mode cache))).
              c \<notin> set cfgs \<and> (\<forall>a\<in>set cfgs. \<not> is_maintenance a))
         \<and> (\<forall>rs\<in>set (written (loaded_effects (loadGroupDashboardData js env target mode cache))).
              \<forall>r\<in>set rs.
                (\<exists>a\<in>set (group_configs target allConfigs).
                   \<not> is_maintenance a \<and> res_id r = cfg_id a)
                \<and> (distinct (map cfg_id allConfigs) \<longrightarrow> res_id r \<noteq> cfg_id c))"
proof -
  let ?load = "loadGroupDashboardData js env target mode cache"
  let ?group = "group_configs target allConfigs"
  let ?active = "filter (\<lambda>cfg. \<not> is_maintenance cfg) ?group"
  have timeline: "\<forall>data. loaded ?load = Some data \<longrightarrow>
      (\<exists>t\<in>set (providerTimelines data).
         tl_id t = cfg_id c \<and> items t = [] \<and> status (latest t) = maintenance
         \<and> res_name (latest t) = cfg_name c)"
  proof (intro allI impI)
    fix data
    assume "loaded ?load = Some data"
    from loaded_is_built[OF this] assms(1) obtain snapshot where
      "data = build_dashboard js env target (filter (\<lambda>cfg. is_maintenance cfg) ?group) snapshot"
      by auto
    moreover have "c \<in> set (filter (\<lambda>cfg. is_maintenance cfg) ?group)"
      using assms(2,3) by simp
    ultimately have "maintenance_timeline env c \<in> set (providerTimelines data)"
      using maintenance_timeline_present by blast
    then show "\<exists>t\<in>set (providerTimelines data).
         tl_id t = cfg_id c \<and> items t = [] \<and> status (latest t) = maintenance
         \<and> res_name (latest t) = cfg_name c"
      using maintenance_timeline_fields by blast
  qed
  from load_effects[OF assms(1), of js target mode cache]
  have probed_active: "set (probed (loaded_effects ?load)) \<subseteq> {?active}"
    and written_batch: "\<forall>rs\<in>set (written (loaded_effects ?load)).
          runProviderChecks js (net env) ?active = Inr rs"
    by simp_all
  have probes: "\<forall>cfgs\<in>set (probed (loaded_effects ?load)).
      c \<notin> set cfgs \<and> (\<forall>a\<in>set cfgs. \<not> is_maintenance a)"
    using probed_active assms(3) by auto
  have writes: "\<forall>rs\<in>set (written (loaded_effects ?load)). \<forall>r\<in>set rs.
      (\<exists>a\<in>set ?group. \<not> is_maintenance a \<and> res_id r = cfg_id a)
      \<and> (distinct (map cfg_id allConfigs) \<longrightarrow> res_id r \<noteq> cfg_id c)"
  proof (intro ballI)
    fix rs r
    assume rs: "rs \<in> set (written (loaded_effects ?load))" and r: "r \<in> set rs"
    from written_batch rs have run: "runProviderChecks js (net env) ?active = Inr rs" by blast
    from runProviderChecks_returns[of js "net env" ?active] run
    have "mset (map res_id rs) = mset (map cfg_id ?active)" by simp
    then have "set (map res_id rs) = set (map cfg_id ?active)" by (metis set_mset_mset)
    with r have "res_id r \<in> cfg_id ` set ?active" by auto
    then obtain a where a: "a \<in> set ?group" "\<not> is_maintenance a" "res_id r = cfg_id a"
      by auto
    have "distinct (map cfg_id allConfigs) \<longrightarrow> res_id r \<noteq> cfg_id c"
    proof
      assume d: "distinct (map cfg_id allConfigs)"
      have "a \<in> set allConfigs" "c \<in> set allConfigs"
        using a(1) assms(2) by (auto simp: group_configs_def)
      moreover have "a \<noteq> c" using a(2) assms(3) by auto
      ultimately have "cfg_id a \<noteq> cfg_id c"
        using d by (meson distinct_map inj_onD)
      with a(3) show "res_id r \<noteq> cfg_id c" by simp
    qed
    with a show "(\<exists>a\<in>set ?group. \<not> is_maintenance a \<and> res_id r = cfg_id a)
      \<and> (distinct (map cfg_id allConfigs) \<longrightarrow> res_id r \<noteq> cfg_id c)"
      by blast
  qed
  from load_never_null[OF assms(1,2)] timeline probes writes show ?thesis by blast
qed

lemmas sample_config_defs = config_a_def config_b_def config_m_def

lemmas load_eval =
  loadGroupDashboardData_def group_configs_def getPingCacheEntry_def readFilteredHistory_def
  filterHistory_def build_dashboard_def mapped_timeline_def maintenance_timeline_def
  attach_official_def newest_first_def sort_by_date_def js_sort_def loaded_def loaded_effects_def
  loaded_summary_def timeline_summary_def no_effects_def UNGROUPED_KEY_def
  sample_env_def later_env_def sample_store_def result_at_def sample_config_defs
  sample_js_def sample_compare_def sample_getTime_def lit_def Let_def

lemma sample_group:
  "group_configs (lit ''main'') [config_b, config_m, config_a] = [config_b, config_m, config_a]"
  by (simp add: group_configs_def sample_config_defs UNGROUPED_KEY_def lit_def)

lemma sample_round:
  "map_sum id (map (\<lambda>r. (res_name r, status r, latencyMs r)))
     (runProviderChecks sample_js (\<lambda>i. env_ok 4000) [config_b, config_a])
   = Inr [(lit ''A'', operational, Some 3000), (lit ''B'', operational, Some 3000)]"
  by (simp add: runProviderChecks_def check_caught_def checkProvider_def checkOpenAI_def
      checkAnthropic_def runStreamCheck_def runStreamCheck_try_def env_ok_def good_stream_def
      response_ok_def DEGRADED_THRESHOLD_MS_def enumerate_eq_zip js_sort_def sample_compare_def
      sample_config_defs parser_eval)

lemma sample_load_never:
  "loaded_summary (loadGroupDashboardData sample_js sample_env (lit ''main'') (Some never) Map.empty)
     = Some [(lit ''A'', 2, operational), (lit ''B'', 1, operational), (lit ''M'', 0, maintenance)]"
  by (simp add: load_eval)

lemma sample_load_always:
  "loaded_summary (loadGroupDashboardData sample_js sample_env (lit ''main'') (Some always) Map.empty)
     = Some [(lit ''A'', 3, operational), (lit ''B'', 2, operational), (lit ''M'', 0, maintenance)]
   \<and> probed (loaded_effects
        (loadGroupDashboardData sample_js sample_env (lit ''main'') (Some always) Map.empty))
     = [[config_b, config_a]]
   \<and> map (map res_name) (written (loaded_effects
        (loadGroupDashboardData sample_js sample_env (lit ''main'') (Some always) Map.empty)))
     = [[lit ''A'', lit ''B'']]"
  by (simp add: load_eval refreshHistory_def refresh_enter_def refresh_round_def round_done_def
      refresh_finally_def new_entry_def sample_append_def
      runProviderChecks_def check_caught_def checkProvider_def checkOpenAI_def
      checkAnthropic_def runStreamCheck_def runStreamCheck_try_def env_ok_def good_stream_def
      response_ok_def DEGRADED_THRESHOLD_MS_def enumerate_eq_zip parser_eval)

text \<open>
  A forced refresh of the sample group: the two active configurations are probed and
  written, the one in maintenance shows with no items and the status \<open>maintenance\<close>.
\<close>

theorem maintenance_never_probed_witness:
  "db_configs sample_env = Inr [config_b, config_m, config_a]
   \<and> config_m \<in> set (group_configs (lit ''main'') [config_b, config_m, config_a])
   \<and> is_maintenance config_m
   \<and> fst (loadGroupDashboardData sample_js sample_env (lit ''main'') (Some always) Map.empty)
       \<noteq> Inr None
   \<and> loaded_summary
        (loadGroupDashboardData sample_js sample_env (lit ''main'') (Some always) Map.empty)
       = Some [(lit ''A'', 3, operational), (lit ''B'', 2, operational),
               (lit ''M'', 0, maintenance)]
   \<and> probed (loaded_effects
        (loadGroupDashboardData sample_js sample_env (lit ''main'') (Some always) Map.empty))
       = [[config_b, config_a]]
   \<and> map (map res_name) (written (loaded_effects
        (loadGroupDashboardData sample_js sample_env (lit ''main'') (Some always) Map.empty)))
       = [[lit ''A'', lit ''B'']]"
proof -
  have db: "db_configs sample_env = Inr [config_b, config_m, config_a]"
    by (simp add: sample_env_def)
  have member: "config_m \<in> set (group_configs (lit ''main'') [config_b, config_m, config_a])"
    by (simp add: sample_group)
  have maint: "is_maintenance config_m"
    by (simp add: config_m_def)
  from maintenance_never_probed[OF db member maint, of sample_js "Some always" Map.empty]
  have "fst (loadGroupDashboardData sample_js sample_env (lit ''main'') (Some always) Map.empty)
          \<noteq> Inr None"
    by blast
  then show ?thesis using db member maint sample_load_always by simp
qed

subsection \<open>Reading without refreshing\<close>

lemma build_dashboard_cong:
  assumes "pollingIntervalMs env' = pollingIntervalMs env"
    and "pollingIntervalLabel env' = pollingIntervalLabel env"
    and "official env' = official env"
    and "now_iso env' = now_iso env"
    and "now_generated env' = now_generated env"
  shows "build_dashboard js env' target maintenanceConfigs snapshot
           = build_dashboard js env target maintenanceConfigs snapshot"
proof -
  have official: "attach_official env' r = attach_official env r" for r
    using assms(3) by (simp add: attach_official_def)
  have "mapped_timeline js env' e = mapped_timeline js env e" for e
    by (simp add: mapped_timeline_def official split: prod.splits list.splits)
  then have mapped: "mapped_timeline js env' = mapped_timeline js env"
    by (simp add: fun_eq_iff)
  have "maintenance_timeline env' c = maintenance_timeline env c" for c
    using assms(4) by (simp add: maintenance_timeline_def official)
  then have "maintenance_timeline env' = maintenance_timeline env"
    by (simp add: fun_eq_iff)
  with mapped show ?thesis using assms(1,2,5) by (simp add: build_dashboard_def)
qed

lemma load_never_unfold:
  "fst (loadGroupDashboardData js env target (Some never) cache)
     = (case db_configs env of
          Inl e \<Rightarrow> Inl e
        | Inr allConfigs \<Rightarrow>
            if group_configs target allConfigs = [] then Inr None
            else (case stored env of
                    Inl e \<Rightarrow> Inl e
                  | Inr snapshot \<Rightarrow>
                      Inr (Some (build_dashboard js env target
                        (filter (\<lambda>cfg. is_maintenance cfg) (group_configs target allConfigs))
                        (filterHistory
                           (remdups (map cfg_id (filter (\<lambda>cfg. \<not> is_maintenance cfg)
                                                     (group_configs target allConfigs))))
                           snapshot)))))"
  by (simp add: loadGroupDashboardData_def readFilteredHistory_def Let_def
      split: sum.splits prod.splits)

lemma load_never_effects:
  "loaded_effects (loadGroupDashboardData js env target (Some never) cache) = no_effects"
  by (simp add: loaded_effects_def loadGroupDashboardData_def Let_def
      split: sum.splits prod.splits)

lemma load_never_cache:
  assumes "cache k = Some e"
  shows "fst (snd (loadGroupDashboardData js env target (Some never) cache)) k = Some e"
  using assms
  by (auto simp: loadGroupDashboardData_def getPingCacheEntry_def Let_def
      split: sum.splits prod.splits option.splits)

text \<open>
  What a load with the mode \<open>never\<close> returns, once the volatile fields are blanked, does
  not depend on the official statuses or on the clock.
\<close>


lemma attach_official_erased:
  "(attach_official env r) \<lparr> officialStatus := None \<rparr> = r \<lparr> officialStatus := None \<rparr>"
  by (simp add: attach_official_def Let_def)

lemma mapped_timeline_erased:
  "map_option timeline_without_volatile (mapped_timeline js env' item)
     = map_option timeline_without_volatile (mapped_timeline js env item)"
  by (simp add: mapped_timeline_def timeline_without_volatile_def attach_official_erased
      split: prod.splits list.splits)

lemma maintenance_timeline_erased:
  "timeline_without_volatile (maintenance_timeline env' config)
     = timeline_without_volatile (maintenance_timeline env config)"
  by (simp add: maintenance_timeline_def timeline_without_volatile_def attach_official_def
      Let_def)

lemma timeline_without_volatile_fields:
  "items (timeline_without_volatile t) = items t"
  "res_name (latest (timeline_without_volatile t)) = res_name (latest t)"
  by (simp_all add: timeline_without_volatile_def)

lemma map_insert_by:
  assumes "\<And>a b. cmp (f a) (f b) = cmp a b"
  shows "map f (insert_by cmp x xs) = insert_by cmp (f x) (map f xs)"
  by (induction xs) (simp_all add: assms)

lemma map_js_sort:
  assumes "\<And>a b. cmp (f a) (f b) = cmp a b"
  shows "map f (js_sort cmp xs) = js_sort cmp (map f xs)"
  by (induction xs) (simp_all add: js_sort_def map_insert_by[of cmp f, OF assms])

lemma present_timelines_erased:
  "map timeline_without_volatile
     (concat (map (\<lambda>t. case t of None \<Rightarrow> [] | Some timeline \<Rightarrow> [timeline])
                (map (mapped_timeline js env') snapshot)))
   = map timeline_without_volatile
     (concat (map (\<lambda>t. case t of None \<Rightarrow> [] | Some timeline \<Rightarrow> [timeline])
                (map (mapped_timeline js env) snapshot)))"
proof (induction snapshot)
  case Nil
  then show ?case by simp
next
  case (Cons e es)
  show ?case
    using Cons.IH mapped_timeline_erased[of js env' e env]
    by (cases "mapped_timeline js env' e"; cases "mapped_timeline js env e") simp_all
qed

lemma build_dashboard_without_volatile:
  assumes "pollingIntervalMs env' = pollingIntervalMs env"
    and "pollingIntervalLabel env' = pollingIntervalLabel env"
  shows "without_volatile (build_dashboard js env' target maintenanceConfigs snapshot)
           = without_volatile (build_dashboard js env target maintenanceConfigs snapshot)"
proof -
  define cmp :: "ProviderTimeline \<Rightarrow> ProviderTimeline \<Rightarrow> int"
    where "cmp = (\<lambda>a b. localeCompare js (res_name (latest a)) (res_name (latest b)))"
  define raw :: "group_env \<Rightarrow> ProviderTimeline list"
    where "raw = (\<lambda>e. concat (map (\<lambda>t. case t of None \<Rightarrow> [] | Some timeline \<Rightarrow> [timeline])
                          (map (mapped_timeline js e) snapshot))
                     @ map (maintenance_timeline e) maintenanceConfigs)"
  have erased: "map timeline_without_volatile (raw env') = map timeline_without_volatile (raw env)"
    using present_timelines_erased[of js env' snapshot env]
    by (simp add: raw_def maintenance_timeline_erased)
  have commute: "map timeline_without_volatile (js_sort cmp xs)
                   = js_sort cmp (map timeline_without_volatile xs)" for xs
    by (rule map_js_sort) (simp add: cmp_def timeline_without_volatile_fields)
  have sorted: "map timeline_without_volatile (js_sort cmp (raw env'))
                  = map timeline_without_volatile (js_sort cmp (raw env))"
    by (simp add: commute erased)
  have "map items (map timeline_without_volatile xs) = map items xs" for xs
    by (simp add: timeline_without_volatile_fields)
  with sorted have its: "map items (js_sort cmp (raw env')) = map items (js_sort cmp (raw env))"
    by metis
  have len: "length (js_sort cmp (raw env')) = length (js_sort cmp (raw env))"
    using arg_cong[OF sorted, of length] by simp
  have unfold: "build_dashboard js e target maintenanceConfigs snapshot
      = \<lparr> groupName = target,
          displayName = (if target = UNGROUPED_KEY then UNGROUPED_DISPLAY_NAME else target),
          providerTimelines = js_sort cmp (raw e),
          lastUpdated = (case sort_by_date js (concat (map items (js_sort cmp (raw e)))) of
                           [] \<Rightarrow> None | x # xs \<Rightarrow> Some (checkedAt x)),
          total = length (js_sort cmp (raw e)),
          pollIntervalLabel = pollingIntervalLabel e,
          pollIntervalMs = pollingIntervalMs e,
          generatedAt = now_generated e \<rparr>" for e
    by (simp add: build_dashboard_def cmp_def raw_def Let_def)
  show ?thesis
    by (simp add: unfold without_volatile_def sorted its len assms)
qed

lemma later_env_same_inputs:
  "db_configs later_env = db_configs sample_env \<and> stored later_env = stored sample_env
   \<and> pollingIntervalMs later_env = pollingIntervalMs sample_env
   \<and> pollingIntervalLabel later_env = pollingIntervalLabel sample_env"
  by (simp add: later_env_def)

text \<open>
  Claim C8, as the code has it. A load with the mode \<open>never\<close> starts no round of
  probes, writes nothing and leaves every cache entry as it is. Two such loads that read
  the same configurations and the same stored history under the same polling settings
  return the same in every field but three: \<open>generatedAt\<close>, the \<open>officialStatus\<close> of
  the \<open>latest\<close> of each timeline, and the \<open>checkedAt\<close> of the \<open>latest\<close> of a timeline
  synthesized for a configuration in maintenance. This holds whatever the cache, the
  network, the clock and the official statuses are at each of the two loads. When the
  official statuses and the readings of the clock are the same as well, the two loads
  return the same in every field.
\<close>

theorem never_mode_reads_only:
  "loaded_effects (loadGroupDashboardData js env target (Some never) cache) = no_effects
   \<and> (\<forall>k e. cache k = Some e \<longrightarrow>
         fst (snd (loadGroupDashboardData js env target (Some never) cache)) k = Some e)
   \<and> (db_configs env' = db_configs env \<and> stored env' = stored env
        \<and> pollingIntervalMs env' = pollingIntervalMs env
        \<and> pollingIntervalLabel env' = pollingIntervalLabel env
      \<longrightarrow> map_sum id (map_option without_volatile)
              (fst (loadGroupDashboardData js env' target (Some never) cache'))
            = map_sum id (map_option without_volatile)
                (fst (loadGroupDashboardData js env target (Some never) cache)))
   \<and> (db_configs env' = db_configs env \<and> stored env' = stored env
        \<and> pollingIntervalMs env' = pollingIntervalMs env
        \<and> pollingIntervalLabel env' = pollingIntervalLabel env
        \<and> official env' = official env
        \<and> now_iso env' = now_iso env \<and> now_generated env' = now_generated env
      \<longrightarrow> fst (loadGroupDashboardData js env' target (Some never) cache')
            = fst (loadGroupDashboardData js env target (Some never) cache))"
proof (intro conjI allI impI)
  show "loaded_effects (loadGroupDashboardData js env target (Some never) cache) = no_effects"
    by (rule load_never_effects)
next
  fix k e
  assume "cache k = Some e"
  then show "fst (snd (loadGroupDashboardData js env target (Some never) cache)) k = Some e"
    by (rule load_never_cache)
next
  assume same: "db_configs env' = db_configs env \<and> stored env' = stored env
        \<and> pollingIntervalMs env' = pollingIntervalMs env
        \<and> pollingIntervalLabel env' = pollingIntervalLabel env"
  then have "without_volatile (build_dashboard js env' target m s)
               = without_volatile (build_dashboard js env target m s)" for m s
    using build_dashboard_without_volatile by blast
  with same show "map_sum id (map_option without_volatile)
              (fst (loadGroupDashboardData js env' target (Some never) cache'))
            = map_sum id (map_option without_volatile)
                (fst (loadGroupDashboardData js env target (Some never) cache))"
    by (auto simp: load_never_unfold split: sum.splits)
next
  assume same: "db_configs env' = db_configs env \<and> stored env' = stored env
        \<and> pollingIntervalMs env' = pollingIntervalMs env
        \<and> pollingIntervalLabel env' = pollingIntervalLabel env
        \<and> official env' = official env
        \<and> now_iso env' = now_iso env \<and> now_generated env' = now_generated env"
  then have "build_dashboard js env' target m s = build_dashboard js env target m s" for m s
    using build_dashboard_cong by blast
  with same show "fst (loadGroupDashboardData js env' target (Some never) cache')
            = fst (loadGroupDashboardData js env target (Some never) cache)"
    by (auto simp: load_never_unfold split: sum.splits)
qed

text \<open>
  Two reads of the sample group, the second with the cache the first left. When the
  second is made a minute later and with another official status, the two snapshots are
  the same once the volatile fields are blanked; when it is made at the same readings of
  the clock with a network that is down, the two snapshots are the same.
\<close>

theorem never_mode_reads_only_witness:
  "loaded_summary (loadGroupDashboardData sample_js sample_env (lit ''main'') (Some never) Map.empty)
     = Some [(lit ''A'', 2, operational), (lit ''B'', 1, operational), (lit ''M'', 0, maintenance)]
   \<and> map_sum id (map_option without_volatile)
        (fst (loadGroupDashboardData sample_js later_env (lit ''main'') (Some never)
           (fst (snd (loadGroupDashboardData sample_js sample_env (lit ''main'') (Some never)
                        Map.empty)))))
     = map_sum id (map_option without_volatile)
        (fst (loadGroupDashboardData sample_js sample_env (lit ''main'') (Some never) Map.empty))
   \<and> fst (loadGroupDashboardData sample_js
        (sample_env \<lparr> net := (\<lambda>i. env_silent), awaited := Inl AbortError \<rparr>)
        (lit ''main'') (Some never)
        (fst (snd (loadGroupDashboardData sample_js sample_env (lit ''main'') (Some never)
                     Map.empty))))
     = fst (loadGroupDashboardData sample_js sample_env (lit ''main'') (Some never) Map.empty)
   \<and> loaded_effects
        (loadGroupDashboardData sample_js sample_env (lit ''main'') (Some never) Map.empty)
     = no_effects"
  using never_mode_reads_only[of sample_js sample_env "lit ''main''" Map.empty
      "sample_env \<lparr> net := (\<lambda>i. env_silent), awaited := Inl AbortError \<rparr>"
      "fst (snd (loadGroupDashboardData sample_js sample_env (lit ''main'') (Some never)
                   Map.empty))"]
    never_mode_reads_only[of sample_js sample_env "lit ''main''" Map.empty later_env
      "fst (snd (loadGroupDashboardData sample_js sample_env (lit ''main'') (Some never)
                   Map.empty))"]
    sample_load_never later_env_same_inputs
  by simp

text \<open>
  The claim as stated fails: the same configurations and the same store, read a minute
  later with the cache the first read left, give a snapshot with another
  \<open>generatedAt\<close>, another \<open>checkedAt\<close> for the configuration in maintenance and
  another \<open>officialStatus\<close> for a configuration with a history.
\<close>

theorem never_mode_reads_only_counterexample:
  "db_configs later_env = db_configs sample_env
   \<and> stored later_env = stored sample_env
   \<and> pollingIntervalMs later_env = pollingIntervalMs sample_env
   \<and> pollingIntervalLabel later_env = pollingIntervalLabel sample_env
   \<and> map_option generatedAt
        (loaded (loadGroupDashboardData sample_js sample_env (lit ''main'') (Some never)
                   Map.empty))
     = Some 1735689705000
   \<and> map_option generatedAt
        (loaded (loadGroupDashboardData sample_js later_env (lit ''main'') (Some never)
                   (fst (snd (loadGroupDashboardData sample_js sample_env (lit ''main'')
                                (Some never) Map.empty)))))
     = Some 1735689765000
   \<and> map_option checkedAt
        (latest_of (lit ''M'') (loadGroupDashboardData sample_js sample_env (lit ''main'')
                                  (Some never) Map.empty))
     = Some (lit ''2025-01-01T00:01:45.000Z'')
   \<and> map_option checkedAt
        (latest_of (lit ''M'') (loadGroupDashboardData sample_js later_env (lit ''main'')
           (Some never)
           (fst (snd (loadGroupDashboardData sample_js sample_env (lit ''main'')
                        (Some never) Map.empty)))))
     = Some (lit ''2025-01-01T00:02:45.000Z'')
   \<and> map_option officialStatus
        (latest_of (lit ''A'') (loadGroupDashboardData sample_js sample_env (lit ''main'')
                                  (Some never) Map.empty))
     = Some None
   \<and> map_option officialStatus
        (latest_of (lit ''A'') (loadGroupDashboardData sample_js later_env (lit ''main'')
           (Some never)
           (fst (snd (loadGroupDashboardData sample_js sample_env (lit ''main'')
                        (Some never) Map.empty)))))
     = Some (Some (JStr (lit ''degraded'')))"
  by (simp add: load_eval latest_of_def)

section \<open>Pruning and reading the history table\<close>

lemma set_partition_desc: "set (partition_desc c rows) = {h \<in> set rows. h_config_id h = c}"
  by (auto simp: partition_desc_def)

lemma mset_partition_desc:
  "mset (partition_desc c rows) = mset (filter (\<lambda>h. h_config_id h = c) rows)"
  by (simp add: partition_desc_def)

lemma distinct_partition_desc: "distinct rows \<Longrightarrow> distinct (partition_desc c rows)"
  by (simp add: partition_desc_def)

lemma partition_desc_sorted:
  "sorted (map (\<lambda>h. - h_checked_at h) (partition_desc c rows))"
  by (simp add: partition_desc_def)

lemma rank_above:
  "map snd (filter (\<lambda>(rn, h). int rn > limit) (enumerate n xs))
     = drop (nat (limit + 1 - int n)) xs"
proof (induction xs arbitrary: n)
  case Nil
  then show ?case by simp
next
  case (Cons x xs)
  show ?case
  proof (cases "int n > limit")
    case True
    then have "nat (limit + 1 - int n) = 0" "nat (limit + 1 - int (Suc n)) = 0" by simp_all
    with True Cons.IH[of "Suc n"] show ?thesis by simp
  next
    case False
    then have "nat (limit + 1 - int n) = Suc (nat (limit + 1 - int (Suc n)))" by simp
    with False Cons.IH[of "Suc n"] show ?thesis by simp
  qed
qed

lemma rank_within:
  "map snd (filter (\<lambda>(rn, h). int rn \<le> limit) (enumerate n xs))
     = take (nat (limit + 1 - int n)) xs"
proof (induction xs arbitrary: n)
  case Nil
  then show ?case by simp
next
  case (Cons x xs)
  show ?case
  proof (cases "int n \<le> limit")
    case True
    then have "nat (limit + 1 - int n) = Suc (nat (limit + 1 - int (Suc n)))" by simp
    with True Cons.IH[of "Suc n"] show ?thesis by simp
  next
    case False
    then have "nat (limit + 1 - int n) = 0" "nat (limit + 1 - int (Suc n)) = 0" by simp_all
    with False Cons.IH[of "Suc n"] show ?thesis by simp
  qed
qed

lemma ranked_of_config:
  "filter (\<lambda>(rn, h). h_config_id h = c) (ranked rows) = enumerate 1 (partition_desc c rows)"
proof -
  have inside: "h_config_id h = c'" if "(rn, h) \<in> set (enumerate n (partition_desc c' rows))"
    for rn h c' n
  proof -
    from that have "h \<in> set (partition_desc c' rows)"
      by (auto simp: enumerate_eq_zip dest: set_zip_rightD)
    then show ?thesis by (simp add: set_partition_desc)
  qed
  have block: "filter (\<lambda>(rn, h). h_config_id h = c) (enumerate n (partition_desc c' rows))
      = (if c' = c then enumerate n (partition_desc c rows) else [])" for c' n
    using inside[of _ _ n c'] by (auto simp: filter_empty_conv filter_id_conv)
  have "filter (\<lambda>(rn, h). h_config_id h = c)
          (concat (map (\<lambda>c'. enumerate n (partition_desc c' rows)) cs))
        = (if c \<in> set cs then enumerate n (partition_desc c rows) else [])"
    if "distinct cs" for cs n
    using that by (induction cs) (auto simp: block)
  from this[of "remdups (map h_config_id rows)" 1]
  have "filter (\<lambda>(rn, h). h_config_id h = c) (ranked rows)
      = (if c \<in> h_config_id ` set rows then enumerate 1 (partition_desc c rows) else [])"
    by (simp add: ranked_def)
  moreover have "partition_desc c rows = []" if "c \<notin> h_config_id ` set rows"
  proof -
    from that have "set (partition_desc c rows) = {}"
      by (auto simp: set_partition_desc)
    then show ?thesis by simp
  qed
  ultimately show ?thesis by auto
qed

lemma doomed_of_config:
  "map snd (filter (\<lambda>(rn, h). h_config_id h = c)
              (filter (\<lambda>(rn, h). int rn > limit) (ranked rows)))
     = drop (nat limit) (partition_desc c rows)"
proof -
  have "filter (\<lambda>(rn, h). h_config_id h = c) (filter (\<lambda>(rn, h). int rn > limit) (ranked rows))
      = filter (\<lambda>(rn, h). int rn > limit) (filter (\<lambda>(rn, h). h_config_id h = c) (ranked rows))"
    by (simp add: conj_commute case_prod_unfold)
  then show ?thesis
    using rank_above[of limit 1 "partition_desc c rows"] by (simp add: ranked_of_config)
qed

lemma doomed_rows:
  "h \<in> snd ` set (filter (\<lambda>(rn, h). int rn > limit) (ranked rows))
     \<longleftrightarrow> h \<in> set (drop (nat limit) (partition_desc (h_config_id h) rows))"
proof -
  have "h \<in> snd ` set (filter (\<lambda>(rn, h). int rn > limit) (ranked rows))
      \<longleftrightarrow> h \<in> set (map snd (filter (\<lambda>(rn, h'). h_config_id h' = h_config_id h)
                                (filter (\<lambda>(rn, h). int rn > limit) (ranked rows))))"
    by force
  then show ?thesis by (simp only: doomed_of_config)
qed

lemma pruned_of_config:
  assumes "distinct (map h_id rows)"
  shows "filter (\<lambda>h. h_config_id h = c) (prune_check_history limit rows)
           = filter (\<lambda>h. h \<notin> set (drop (nat limit) (partition_desc c rows)))
               (filter (\<lambda>h. h_config_id h = c) rows)"
proof -
  let ?doomed = "filter (\<lambda>(rn, h). int rn > limit) (ranked rows)"
  have inj: "inj_on h_id (set rows)" and d: "distinct rows"
    using assms by (simp_all add: distinct_map)
  have sub: "snd ` set ?doomed \<subseteq> set rows"
    using doomed_rows[of _ limit rows] set_partition_desc
    by (auto dest!: in_set_dropD)
  have keep: "h_id h \<notin> set (map (\<lambda>(rn, h). h_id h) ?doomed)
      \<longleftrightarrow> h \<notin> set (drop (nat limit) (partition_desc (h_config_id h) rows))"
    if "h \<in> set rows" for h
  proof -
    have "set (map (\<lambda>(rn, h). h_id h) ?doomed) = h_id ` (snd ` set ?doomed)"
      by (auto simp: image_image case_prod_unfold)
    then have "h_id h \<in> set (map (\<lambda>(rn, h). h_id h) ?doomed) \<longleftrightarrow> h \<in> snd ` set ?doomed"
      using inj_on_image_mem_iff[OF inj that sub] by simp
    then show ?thesis using doomed_rows[of h limit rows] by simp
  qed
  have "filter (\<lambda>h. h_config_id h = c) (prune_check_history limit rows)
      = filter (\<lambda>h. h_config_id h = c \<and> h_id h \<notin> set (map (\<lambda>(rn, h). h_id h) ?doomed)) rows"
    by (simp add: prune_check_history_def Let_def conj_commute)
  also have "\<dots> = filter (\<lambda>h. h_config_id h = c
                      \<and> h \<notin> set (drop (nat limit) (partition_desc c rows))) rows"
  proof (rule filter_cong[OF refl])
    fix h
    assume "h \<in> set rows"
    from keep[OF this]
    show "(h_config_id h = c \<and> h_id h \<notin> set (map (\<lambda>(rn, h). h_id h) ?doomed))
        = (h_config_id h = c \<and> h \<notin> set (drop (nat limit) (partition_desc c rows)))"
      by blast
  qed
  finally show ?thesis by (simp add: conj_commute)
qed

lemma distinct_filter_not_dropped:
  assumes "distinct xs"
  shows "filter (\<lambda>x. x \<notin> set (drop n xs)) xs = take n xs"
proof -
  let ?keep = "\<lambda>x. x \<notin> set (drop n xs)"
  have disjoint: "set (take n xs) \<inter> set (drop n xs) = {}"
    using assms by (metis append_take_drop_id distinct_append)
  have "filter ?keep xs = filter ?keep (take n xs) @ filter ?keep (drop n xs)"
    by (metis append_take_drop_id filter_append)
  moreover have "filter ?keep (take n xs) = take n xs"
    using disjoint by (auto simp: filter_id_conv)
  moreover have "filter ?keep (drop n xs) = []"
    by (simp add: filter_empty_conv)
  ultimately show ?thesis by simp
qed

lemma distinct_take_is_filter:
  "distinct xs \<Longrightarrow> filter_mset (\<lambda>x. x \<notin> set (drop n xs)) (mset xs) = mset (take n xs)"
  using distinct_filter_not_dropped[of xs n] by (metis mset_filter)

lemma pruned_partition:
  assumes "distinct (map h_id rows)"
  shows "mset (filter (\<lambda>h. h_config_id h = c) (prune_check_history limit rows))
           = mset (take (nat limit) (partition_desc c rows))"
proof -
  have d: "distinct (partition_desc c rows)"
    using assms by (simp add: distinct_partition_desc distinct_map)
  have "mset (filter (\<lambda>h. h_config_id h = c) (prune_check_history limit rows))
      = filter_mset (\<lambda>h. h \<notin> set (drop (nat limit) (partition_desc c rows)))
          (mset (filter (\<lambda>h. h_config_id h = c) rows))"
    unfolding pruned_of_config[OF assms] by (simp only: mset_filter)
  then have "mset (filter (\<lambda>h. h_config_id h = c) (prune_check_history limit rows))
      = filter_mset (\<lambda>h. h \<notin> set (drop (nat limit) (partition_desc c rows)))
          (mset (partition_desc c rows))"
    by (simp only: mset_partition_desc)
  then show ?thesis using distinct_take_is_filter[OF d] by simp
qed

lemma kept_newer_than_deleted:
  assumes "k \<in> set (take n (partition_desc c rows))"
    and "d \<in> set (drop n (partition_desc c rows))"
  shows "h_checked_at d \<le> h_checked_at k"
proof -
  let ?p = "partition_desc c rows"
  from assms(1) obtain i where i: "i < length (take n ?p)" "take n ?p ! i = k"
    by (auto simp: in_set_conv_nth)
  from assms(2) obtain j where j: "j < length (drop n ?p)" "drop n ?p ! j = d"
    by (auto simp: in_set_conv_nth)
  have "i \<le> n + j" "n + j < length ?p" "?p ! i = k" "?p ! (n + j) = d"
    using i j by auto
  with partition_desc_sorted[of c rows]
  have "- h_checked_at k \<le> - h_checked_at d"
    by (metis (no_types, lifting) length_map nth_map order_le_less_trans sorted_iff_nth_mono)
  then show ?thesis by simp
qed

lemma join_of_config:
  "filter (\<lambda>(rn, r, cf). h_config_id r = c)
     (concat (map (\<lambda>(rn, r). map (\<lambda>cf. (rn, r, cf)) (g r)) xs))
   = concat (map (\<lambda>(rn, r). map (\<lambda>cf. (rn, r, cf)) (g r))
       (filter (\<lambda>(rn, r). h_config_id r = c) xs))"
  by (induction xs) (auto simp: filter_empty_conv filter_id_conv)

lemma config_row_unique:
  assumes "distinct (map c_id configs)"
  shows "filter (\<lambda>cf. c_id cf = c) configs = []
         \<or> (\<exists>cf. filter (\<lambda>cf. c_id cf = c) configs = [cf])"
  using assms
proof (induction configs)
  case Nil
  then show ?case by simp
next
  case (Cons x xs)
  show ?case
  proof (cases "c_id x = c")
    case True
    with Cons.prems have "c \<notin> c_id ` set xs" by simp
    then have "\<forall>y\<in>set xs. c_id y \<noteq> c" by blast
    then have "filter (\<lambda>cf. c_id cf = c) xs = []" by (simp add: filter_empty_conv)
    with True show ?thesis by simp
  next
    case False
    with Cons show ?thesis by simp
  qed
qed

lemma recent_of_config:
  assumes "distinct (map c_id configs)"
  shows "mset (map r_checked_at
           (filter (\<lambda>r. r_config_id r = c)
              (get_recent_check_history limit target rows configs)))
         = (if c \<in> c_id ` set configs
            then mset (map h_checked_at
              (take (nat limit)
                 (partition_desc c
                    (filter (\<lambda>h. case target of None \<Rightarrow> True | Some ids \<Rightarrow> h_config_id h \<in> set ids)
                       rows))))
            else {#})"
proof -
  define wanted where
    "wanted = filter (\<lambda>h. case target of None \<Rightarrow> True | Some ids \<Rightarrow> h_config_id h \<in> set ids) rows"
  define g :: "check_history_row \<Rightarrow> check_configs_row list"
    where "g = (\<lambda>r. filter (\<lambda>cf. c_id cf = h_config_id r) configs)"
  define joined where
    "joined = concat (map (\<lambda>(rn, r). map (\<lambda>cf. (rn, r, cf)) (g r)) (ranked wanted))"
  define kept where "kept = filter (\<lambda>(rn, r, cf). int rn \<le> limit) joined"
  define ordered where "ordered = sort_key (\<lambda>(rn, r, cf). (c_name cf, - h_checked_at r)) kept"
  define ofc :: "nat \<times> check_history_row \<times> check_configs_row \<Rightarrow> bool"
    where "ofc = (\<lambda>(rn, r, cf). h_config_id r = c)"
  define stamp :: "nat \<times> check_history_row \<times> check_configs_row \<Rightarrow> int"
    where "stamp = (\<lambda>(rn, r, cf). h_checked_at r)"
  define p where "p = partition_desc c wanted"
  define cfs where "cfs = filter (\<lambda>cf. c_id cf = c) configs"
  have result: "map r_checked_at (filter (\<lambda>r. r_config_id r = c)
        (get_recent_check_history limit target rows configs))
      = map stamp (filter ofc ordered)"
    unfolding get_recent_check_history_def Let_def ordered_def kept_def joined_def g_def
      wanted_def ofc_def stamp_def
    by (simp add: filter_map o_def case_prod_unfold)
  have "mset (filter ofc ordered) = mset (filter ofc kept)"
    unfolding ordered_def by (simp only: mset_filter mset_sort)
  then have sorted_away: "mset (map stamp (filter ofc ordered)) = mset (map stamp (filter ofc kept))"
    by (simp only: mset_map)
  have in_p: "h_config_id r = c" if "(rn, r) \<in> set (enumerate 1 p)" for rn r
  proof -
    from that have "r \<in> set p" by (auto simp: enumerate_eq_zip dest: set_zip_rightD)
    then show ?thesis by (simp add: p_def set_partition_desc)
  qed
  have "filter ofc joined
      = concat (map (\<lambda>(rn, r). map (\<lambda>cf. (rn, r, cf)) (g r)) (enumerate 1 p))"
    unfolding ofc_def joined_def p_def by (simp only: join_of_config ranked_of_config)
  also have "\<dots> = concat (map (\<lambda>(rn, r). map (\<lambda>cf. (rn, r, cf)) cfs) (enumerate 1 p))"
  proof -
    have "map (\<lambda>(rn, r). map (\<lambda>cf. (rn, r, cf)) (g r)) (enumerate 1 p)
        = map (\<lambda>(rn, r). map (\<lambda>cf. (rn, r, cf)) cfs) (enumerate 1 p)"
    proof (rule map_cong[OF refl])
      fix x
      assume x: "x \<in> set (enumerate 1 p)"
      obtain rn r where "x = (rn, r)" by (cases x)
      with x in_p show "(case x of (rn, r) \<Rightarrow> map (\<lambda>cf. (rn, r, cf)) (g r))
          = (case x of (rn, r) \<Rightarrow> map (\<lambda>cf. (rn, r, cf)) cfs)"
        by (simp add: g_def cfs_def)
    qed
    then show ?thesis by (simp only:)
  qed
  finally have joined: "filter ofc joined
      = concat (map (\<lambda>(rn, r). map (\<lambda>cf. (rn, r, cf)) cfs) (enumerate 1 p))" .
  have kept: "filter ofc kept = filter (\<lambda>(rn, r, cf). int rn \<le> limit) (filter ofc joined)"
    unfolding kept_def by (simp only: filter_filter conj_commute)
  from config_row_unique[OF assms, of c] show ?thesis
  proof
    assume none: "filter (\<lambda>cf. c_id cf = c) configs = []"
    then have "c \<notin> c_id ` set configs" by (auto simp: filter_empty_conv)
    moreover have "filter ofc kept = []"
      unfolding kept joined cfs_def none by simp
    ultimately show ?thesis using result sorted_away by simp
  next
    assume "\<exists>cf. filter (\<lambda>cf. c_id cf = c) configs = [cf]"
    then obtain cf where one: "filter (\<lambda>cf. c_id cf = c) configs = [cf]" by blast
    then have "cf \<in> set (filter (\<lambda>cf. c_id cf = c) configs)" by simp
    then have present: "c \<in> c_id ` set configs" by auto
    have single: "concat (map (\<lambda>(rn, r). map (\<lambda>cf. (rn, r, cf)) [cf]) xs)
        = map (\<lambda>(rn, r). (rn, r, cf)) xs" for xs :: "(nat \<times> check_history_row) list"
      by (induction xs) auto
    have "filter ofc joined = map (\<lambda>(rn, r). (rn, r, cf)) (enumerate 1 p)"
      unfolding joined cfs_def one by (rule single)
    then have "filter ofc kept
        = map (\<lambda>(rn, r). (rn, r, cf)) (filter (\<lambda>(rn, r). int rn \<le> limit) (enumerate 1 p))"
      unfolding kept by (simp add: filter_map o_def case_prod_unfold)
    then have "map stamp (filter ofc kept)
        = map h_checked_at (map snd (filter (\<lambda>(rn, r). int rn \<le> limit) (enumerate 1 p)))"
      by (simp add: stamp_def o_def case_prod_unfold)
    also have "\<dots> = map h_checked_at (take (nat limit) p)"
      using rank_within[of limit 1 p] by simp
    finally show ?thesis using result sorted_away present by (simp add: p_def wanted_def)
  qed
qed

text \<open>
  Claim C6. In a table whose ids are unique, after \<open>prune_check_history\<close> the rows
  left for a configuration are the first \<open>limit_per_config\<close> of its rows taken newest
  first: with the cap 60, all of them when there are at most 60, and 60 of them
  otherwise. Every row left is at least as new as every deleted row of its configuration.
  \<open>get_recent_check_history\<close>, over configurations with unique ids and for a limit that
  is not negative, returns for each configuration at most \<open>limit_per_config\<close> rows,
  and their times are those of the newest rows of the wanted history.
\<close>

theorem prune_keeps_newest:
  assumes "distinct (map h_id check_history)"
  shows "mset (filter (\<lambda>h. h_config_id h = c) (prune_check_history limit check_history))
           = mset (take (nat limit) (partition_desc c check_history))
         \<and> length (filter (\<lambda>h. h_config_id h = c) (prune_check_history limit check_history))
           = min (nat limit) (length (filter (\<lambda>h. h_config_id h = c) check_history))
         \<and> (\<forall>k\<in>set (prune_check_history limit check_history).
              \<forall>d\<in>set check_history.
                d \<notin> set (prune_check_history limit check_history)
                \<and> h_config_id d = h_config_id k
                \<longrightarrow> h_checked_at d \<le> h_checked_at k)
         \<and> (distinct (map c_id check_configs) \<and> 0 \<le> limit \<longrightarrow>
              int (length (filter (\<lambda>r. r_config_id r = c)
                     (get_recent_check_history limit target check_history check_configs)))
                \<le> limit
              \<and> mset (map r_checked_at
                   (filter (\<lambda>r. r_config_id r = c)
                      (get_recent_check_history limit target check_history check_configs)))
                = (if c \<in> c_id ` set check_configs
                   then mset (map h_checked_at
                     (take (nat limit)
                        (partition_desc c
                           (filter (\<lambda>h. case target of
                                          None \<Rightarrow> True
                                        | Some ids \<Rightarrow> h_config_id h \<in> set ids)
                              check_history))))
                   else {#}))"
proof -
  let ?pruned = "prune_check_history limit check_history"
  have part: "mset (filter (\<lambda>h. h_config_id h = c') ?pruned)
      = mset (take (nat limit) (partition_desc c' check_history))" for c'
    by (rule pruned_partition[OF assms])
  have "length (filter (\<lambda>h. h_config_id h = c) ?pruned)
      = length (take (nat limit) (partition_desc c check_history))"
    using part[of c] by (metis size_mset)
  moreover have "length (partition_desc c check_history)
      = length (filter (\<lambda>h. h_config_id h = c) check_history)"
    using mset_partition_desc[of c check_history] by (metis size_mset)
  ultimately have count: "length (filter (\<lambda>h. h_config_id h = c) ?pruned)
      = min (nat limit) (length (filter (\<lambda>h. h_config_id h = c) check_history))"
    by (simp add: min.commute)
  have newest: "\<forall>k\<in>set ?pruned. \<forall>d\<in>set check_history.
      d \<notin> set ?pruned \<and> h_config_id d = h_config_id k \<longrightarrow> h_checked_at d \<le> h_checked_at k"
  proof (intro ballI impI)
    fix k d
    assume k: "k \<in> set ?pruned" and d: "d \<in> set check_history"
      and rest: "d \<notin> set ?pruned \<and> h_config_id d = h_config_id k"
    let ?c = "h_config_id k"
    let ?p = "partition_desc ?c check_history"
    have sets: "set (filter (\<lambda>h. h_config_id h = ?c) ?pruned) = set (take (nat limit) ?p)"
      using part[of ?c] by (metis set_mset_mset)
    from k have "k \<in> set (filter (\<lambda>h. h_config_id h = ?c) ?pruned)" by simp
    with sets have k_top: "k \<in> set (take (nat limit) ?p)" by simp
    from d rest have "d \<in> set ?p" by (simp add: set_partition_desc)
    moreover from rest have "d \<notin> set (filter (\<lambda>h. h_config_id h = ?c) ?pruned)" by simp
    with sets have "d \<notin> set (take (nat limit) ?p)" by simp
    ultimately have "d \<in> set (drop (nat limit) ?p)"
      by (metis Un_iff append_take_drop_id set_append)
    with k_top show "h_checked_at d \<le> h_checked_at k"
      by (rule kept_newer_than_deleted)
  qed
  have recent: "distinct (map c_id check_configs) \<and> 0 \<le> limit \<longrightarrow>
      int (length (filter (\<lambda>r. r_config_id r = c)
             (get_recent_check_history limit target check_history check_configs))) \<le> limit
      \<and> mset (map r_checked_at
           (filter (\<lambda>r. r_config_id r = c)
              (get_recent_check_history limit target check_history check_configs)))
        = (if c \<in> c_id ` set check_configs
           then mset (map h_checked_at
             (take (nat limit)
                (partition_desc c
                   (filter (\<lambda>h. case target of
                                  None \<Rightarrow> True
                                | Some ids \<Rightarrow> h_config_id h \<in> set ids)
                      check_history))))
           else {#})"
  proof
    assume h: "distinct (map c_id check_configs) \<and> 0 \<le> limit"
    let ?rows = "filter (\<lambda>r. r_config_id r = c)
                   (get_recent_check_history limit target check_history check_configs)"
    let ?wanted = "filter (\<lambda>h. case target of None \<Rightarrow> True | Some ids \<Rightarrow> h_config_id h \<in> set ids)
                     check_history"
    from h have eq: "mset (map r_checked_at ?rows)
        = (if c \<in> c_id ` set check_configs
           then mset (map h_checked_at (take (nat limit) (partition_desc c ?wanted)))
           else {#})"
      using recent_of_config[of check_configs c limit target check_history] by blast
    have "length ?rows = size (mset (map r_checked_at ?rows))"
      by (simp only: size_mset length_map)
    also have "\<dots> \<le> nat limit" unfolding eq by simp
    finally have "int (length ?rows) \<le> limit" using h by linarith
    with eq show "int (length ?rows) \<le> limit
        \<and> mset (map r_checked_at ?rows)
          = (if c \<in> c_id ` set check_configs
             then mset (map h_checked_at (take (nat limit) (partition_desc c ?wanted)))
             else {#})"
      by blast
  qed
  from part[of c] count newest recent show ?thesis by blast
qed

lemmas sql_eval =
  prune_check_history_def get_recent_check_history_def ranked_def partition_desc_def
  sample_history_def sample_configs_def history_row_def enumerate_eq_zip lit_def Let_def

lemma sample_prune:
  "map h_id (prune_check_history 2 sample_history) = [2, 3, 4]
   \<and> map h_id (partition_desc 1 sample_history) = [2, 4, 1]"
  by (simp add: sql_eval)

lemma sample_recent:
  "map (\<lambda>r. (r_name r, r_checked_at r))
     (get_recent_check_history 2 None sample_history sample_configs)
   = [(lit ''A'', 10), (lit ''B'', 30), (lit ''B'', 20)]"
  by (simp add: sql_eval)

text \<open>
  With a cap of 2, the oldest of the three rows of configuration 1 goes, the only row of
  configuration 2 stays; reading with the limit 2 gives the two newest rows of
  configuration 1 and the row of configuration 2.
\<close>

theorem prune_keeps_newest_witness:
  "distinct (map h_id sample_history)
   \<and> distinct (map c_id sample_configs)
   \<and> map h_id (prune_check_history 2 sample_history) = [2, 3, 4]
   \<and> map h_id (partition_desc 1 sample_history) = [2, 4, 1]
   \<and> length (filter (\<lambda>h. h_config_id h = 1) (prune_check_history 2 sample_history)) = 2
   \<and> map (\<lambda>r. (r_name r, r_checked_at r))
        (get_recent_check_history 2 None sample_history sample_configs)
       = [(lit ''A'', 10), (lit ''B'', 30), (lit ''B'', 20)]
   \<and> int (length (filter (\<lambda>r. r_config_id r = 1)
        (get_recent_check_history 2 None sample_history sample_configs))) \<le> 2"
proof -
  have ids: "distinct (map h_id sample_history)"
    by (simp add: sample_history_def history_row_def)
  have cids: "distinct (map c_id sample_configs)"
    by (simp add: sample_configs_def)
  have three: "length (filter (\<lambda>h. h_config_id h = 1) sample_history) = 3"
    by (simp add: sample_history_def history_row_def)
  from prune_keeps_newest[OF ids, of 1 2 sample_configs None] cids three
  have "length (filter (\<lambda>h. h_config_id h = 1) (prune_check_history 2 sample_history)) = 2"
    and "int (length (filter (\<lambda>r. r_config_id r = 1)
          (get_recent_check_history 2 None sample_history sample_configs))) \<le> 2"
    by simp_all
  then show ?thesis using ids cids sample_prune sample_recent by simp
qed

section \<open>Refreshes of one cache key\<close>

lemma refresh_enter_start:
  "refresh_enter allowedIds interval now e = StartRound
     \<longleftrightarrow> allowedIds \<noteq> [] \<and> inflight e = None
         \<and> (history e = None \<or> \<not> now - lastPingAt e < interval)"
  by (auto simp: refresh_enter_def split: option.splits if_splits)

lemma call_start_fields:
  assumes "refresh_enter allowedIds interval now (entry st) = StartRound"
  shows "fst (call_refresh allowedIds interval now st) = StartRound"
    and "entry (snd (call_refresh allowedIds interval now st))
           = (entry st) \<lparr> inflight := Some (next_promise st) \<rparr>"
    and "pending (snd (call_refresh allowedIds interval now st)) = next_promise st # pending st"
    and "settled (snd (call_refresh allowedIds interval now st)) = settled st"
    and "rounds (snd (call_refresh allowedIds interval now st)) = Suc (rounds st)"
    and "next_promise (snd (call_refresh allowedIds interval now st)) = Suc (next_promise st)"
    and "clock (snd (call_refresh allowedIds interval now st)) = now"
  using assms by (simp_all add: call_refresh_def)

lemma call_other:
  assumes "refresh_enter allowedIds interval now (entry st) \<noteq> StartRound"
  shows "call_refresh allowedIds interval now st
           = (refresh_enter allowedIds interval now (entry st), st \<lparr> clock := now \<rparr>)"
  using assms
  by (cases "refresh_enter allowedIds interval now (entry st)") (simp_all add: call_refresh_def)

lemma call_other_fields:
  assumes "refresh_enter allowedIds interval now (entry st) \<noteq> StartRound"
  shows "entry (snd (call_refresh allowedIds interval now st)) = entry st"
    and "pending (snd (call_refresh allowedIds interval now st)) = pending st"
    and "settled (snd (call_refresh allowedIds interval now st)) = settled st"
    and "rounds (snd (call_refresh allowedIds interval now st)) = rounds st"
    and "next_promise (snd (call_refresh allowedIds interval now st)) = next_promise st"
    and "clock (snd (call_refresh allowedIds interval now st)) = now"
  by (simp_all add: call_other[OF assms])

lemma settle_fields:
  "entry (settle p outcome now st)
     = (case outcome of Inl e \<Rightarrow> entry st | Inr h \<Rightarrow> round_done h now (entry st))"
  "pending (settle p outcome now st) = removeAll p (pending st)"
  "settled (settle p outcome now st) = p # settled st"
  "rounds (settle p outcome now st) = rounds st"
  "next_promise (settle p outcome now st) = next_promise st"
  "clock (settle p outcome now st) = now"
  by (simp_all add: settle_def)

lemma finally_fields:
  "entry (run_finally p st) = refresh_finally p (entry st)"
  "pending (run_finally p st) = pending st"
  "settled (run_finally p st) = removeAll p (settled st)"
  "rounds (run_finally p st) = rounds st"
  "next_promise (run_finally p st) = next_promise st"
  "clock (run_finally p st) = clock st"
  by (simp_all add: run_finally_def)


lemma reachable_invariant:
  assumes "reachable allowedIds interval st"
  shows "(\<forall>p\<in>set (pending st). inflight (entry st) = Some p)
         \<and> distinct (pending st)
         \<and> (\<forall>p\<in>set (pending st) \<union> set (settled st). p < next_promise st)
         \<and> set (pending st) \<inter> set (settled st) = {}
         \<and> (pending st \<noteq> [] \<longrightarrow>
              allowedIds \<noteq> []
              \<and> (history (entry st) = None \<or> interval \<le> clock st - lastPingAt (entry st)))
         \<and> (history (entry st) \<noteq> None \<longrightarrow> allowedIds \<noteq> [])"
  using assms
proof (induction rule: reachable.induct)
  case start
  show ?case by (simp add: initial_state_def new_entry_def)
next
  case (call st now)
  from call.IH have i1: "\<forall>p\<in>set (pending st). inflight (entry st) = Some p"
    and i2: "distinct (pending st)"
    and i3: "\<forall>p\<in>set (pending st) \<union> set (settled st). p < next_promise st"
    and i4: "set (pending st) \<inter> set (settled st) = {}"
    and i5: "pending st \<noteq> [] \<longrightarrow> allowedIds \<noteq> []
              \<and> (history (entry st) = None \<or> interval \<le> clock st - lastPingAt (entry st))"
    and i6: "history (entry st) \<noteq> None \<longrightarrow> allowedIds \<noteq> []"
    by blast+
  let ?st' = "snd (call_refresh allowedIds interval now st)"
  show ?case
  proof (cases "refresh_enter allowedIds interval now (entry st) = StartRound")
    case True
    note f = call_start_fields[OF True]
    from True have s: "allowedIds \<noteq> []" "inflight (entry st) = None"
      "history (entry st) = None \<or> \<not> now - lastPingAt (entry st) < interval"
      by (simp_all add: refresh_enter_start)
    have none: "pending st = []"
    proof (cases "pending st")
      case (Cons q qs)
      with i1 have "inflight (entry st) = Some q" by simp
      with s(2) show ?thesis by simp
    qed simp
    have fresh: "next_promise st \<notin> set (settled st)"
      using i3 by auto
    have c1: "\<forall>p\<in>set (pending ?st'). inflight (entry ?st') = Some p"
      by (simp add: f none)
    have c2: "distinct (pending ?st')"
      by (simp add: f none)
    have c3: "\<forall>p\<in>set (pending ?st') \<union> set (settled ?st'). p < next_promise ?st'"
      using i3 by (auto simp: f none less_Suc_eq)
    have c4: "set (pending ?st') \<inter> set (settled ?st') = {}"
      using fresh by (simp add: f none)
    have c5: "pending ?st' \<noteq> [] \<longrightarrow> allowedIds \<noteq> []
              \<and> (history (entry ?st') = None
                   \<or> interval \<le> clock ?st' - lastPingAt (entry ?st'))"
      using s(1,3) by (auto simp: f)
    have c6: "history (entry ?st') \<noteq> None \<longrightarrow> allowedIds \<noteq> []"
      using s(1) by simp
    from c1 c2 c3 c4 c5 c6 show ?thesis by blast
  next
    case False
    note f = call_other_fields[OF False]
    have c5: "pending ?st' \<noteq> [] \<longrightarrow> allowedIds \<noteq> []
              \<and> (history (entry ?st') = None
                   \<or> interval \<le> clock ?st' - lastPingAt (entry ?st'))"
      using i5 call.hyps(2) by (auto simp: f)
    from i1 i2 i3 i4 i6 c5 show ?thesis by (simp add: f)
  qed
next
  case (settles st p now outcome)
  from settles.IH have i1: "\<forall>p\<in>set (pending st). inflight (entry st) = Some p"
    and i2: "distinct (pending st)"
    and i3: "\<forall>p\<in>set (pending st) \<union> set (settled st). p < next_promise st"
    and i4: "set (pending st) \<inter> set (settled st) = {}"
    and i5: "pending st \<noteq> [] \<longrightarrow> allowedIds \<noteq> []
              \<and> (history (entry st) = None \<or> interval \<le> clock st - lastPingAt (entry st))"
    and i6: "history (entry st) \<noteq> None \<longrightarrow> allowedIds \<noteq> []"
    by blast+
  let ?st' = "settle p outcome now st"
  note f = settle_fields[of p outcome now st]
  have same: "q = p" if "q \<in> set (pending st)" for q
  proof -
    from that i1 have "inflight (entry st) = Some q" by blast
    moreover from settles.hyps(2) i1 have "inflight (entry st) = Some p" by blast
    ultimately show ?thesis by simp
  qed
  then have gone: "removeAll p (pending st) = []"
    by (auto simp: removeAll_filter_not_eq filter_empty_conv)
  from settles.hyps(2) i5 have ids: "allowedIds \<noteq> []" by auto
  have c3: "\<forall>q\<in>set (pending ?st') \<union> set (settled ?st'). q < next_promise ?st'"
    using i3 settles.hyps(2) by (auto simp: f gone)
  have c6: "history (entry ?st') \<noteq> None \<longrightarrow> allowedIds \<noteq> []"
    using ids by simp
  from c3 c6 show ?case by (simp add: f(2) gone)
next
  case (finalize st p)
  from finalize.IH have i1: "\<forall>p\<in>set (pending st). inflight (entry st) = Some p"
    and i2: "distinct (pending st)"
    and i3: "\<forall>p\<in>set (pending st) \<union> set (settled st). p < next_promise st"
    and i4: "set (pending st) \<inter> set (settled st) = {}"
    and i5: "pending st \<noteq> [] \<longrightarrow> allowedIds \<noteq> []
              \<and> (history (entry st) = None \<or> interval \<le> clock st - lastPingAt (entry st))"
    and i6: "history (entry st) \<noteq> None \<longrightarrow> allowedIds \<noteq> []"
    by blast+
  let ?st' = "run_finally p st"
  note f = finally_fields[of p st]
  have same: "history (refresh_finally p (entry st)) = history (entry st)"
    "lastPingAt (refresh_finally p (entry st)) = lastPingAt (entry st)"
    by (simp_all add: refresh_finally_def)
  have c1: "\<forall>q\<in>set (pending ?st'). inflight (entry ?st') = Some q"
  proof
    fix q
    assume q: "q \<in> set (pending ?st')"
    then have "q \<in> set (pending st)" by (simp add: f)
    with i1 i4 finalize.hyps(2) have "inflight (entry st) = Some q" "q \<noteq> p" by auto
    then show "inflight (entry ?st') = Some q" by (simp add: f refresh_finally_def)
  qed
  have c3: "\<forall>q\<in>set (pending ?st') \<union> set (settled ?st'). q < next_promise ?st'"
    using i3 by (auto simp: f)
  have c4: "set (pending ?st') \<inter> set (settled ?st') = {}"
    using i4 by (auto simp: f)
  have c5: "pending ?st' \<noteq> [] \<longrightarrow> allowedIds \<noteq> []
              \<and> (history (entry ?st') = None
                   \<or> interval \<le> clock ?st' - lastPingAt (entry ?st'))"
    using i5 by (simp add: f same)
  have c6: "history (entry ?st') \<noteq> None \<longrightarrow> allowedIds \<noteq> []"
    using i6 by (simp add: f same)
  from c1 i2 c3 c4 c5 c6 show ?case by (simp add: f(2))
qed


lemma pending_at_most_one:
  assumes "reachable allowedIds interval st"
  shows "length (pending st) \<le> 1"
proof -
  from reachable_invariant[OF assms]
  have one: "\<forall>p\<in>set (pending st). inflight (entry st) = Some p"
    and d: "distinct (pending st)"
    by blast+
  show ?thesis
  proof (cases "pending st")
    case Nil
    then show ?thesis by simp
  next
    case (Cons p ps)
    have "ps = []"
    proof (cases ps)
      case (Cons q qs)
      with \<open>pending st = p # ps\<close> have "p \<in> set (pending st)" "q \<in> set (pending st)"
        by simp_all
      with one have "inflight (entry st) = Some p" "inflight (entry st) = Some q"
        by blast+
      then have "p = q" by simp
      with Cons \<open>pending st = p # ps\<close> d show ?thesis by simp
    qed simp
    with Cons show ?thesis by simp
  qed
qed

lemma call_while_pending:
  assumes "reachable allowedIds interval st" and "p \<in> set (pending st)" and "clock st \<le> now"
  shows "call_refresh allowedIds interval now st = (AwaitInflight p, st \<lparr> clock := now \<rparr>)"
proof -
  from reachable_invariant[OF assms(1)] assms(2)
  have inflight: "inflight (entry st) = Some p"
    and ids: "allowedIds \<noteq> []"
    and stale: "history (entry st) = None \<or> interval \<le> clock st - lastPingAt (entry st)"
    by auto
  from stale assms(3)
  have "(if now - lastPingAt (entry st) < interval then history (entry st) else None) = None"
    by auto
  with inflight ids
  have enter: "refresh_enter allowedIds interval now (entry st) = AwaitInflight p"
    by (simp add: refresh_enter_def)
  then show ?thesis using call_other[of allowedIds interval now st] by simp
qed

lemma call_while_fresh:
  assumes "reachable allowedIds interval st" and "history (entry st) = Some h"
    and "now - lastPingAt (entry st) < interval"
  shows "call_refresh allowedIds interval now st = (ReturnCached h, st \<lparr> clock := now \<rparr>)"
proof -
  from reachable_invariant[OF assms(1)] assms(2) have ids: "allowedIds \<noteq> []" by auto
  with assms(2,3)
  have enter: "refresh_enter allowedIds interval now (entry st) = ReturnCached h"
    by (simp add: refresh_enter_def)
  then show ?thesis using call_other[of allowedIds interval now st] by simp
qed

lemma calls_after_first:
  assumes "allowedIds \<noteq> []" and "history (entry st) = None" and "inflight (entry st) = Some p"
  shows "rounds (calls allowedIds interval nows st) = rounds st
         \<and> pending (calls allowedIds interval nows st) = pending st"
  using assms
proof (induction nows arbitrary: st)
  case Nil
  then show ?case by simp
next
  case (Cons now nows)
  from Cons.prems
  have enter: "refresh_enter allowedIds interval now (entry st) = AwaitInflight p"
    by (simp add: refresh_enter_def)
  then have step: "snd (call_refresh allowedIds interval now st) = st \<lparr> clock := now \<rparr>"
    using call_other[of allowedIds interval now st] by simp
  from Cons.IH[of "st \<lparr> clock := now \<rparr>"] Cons.prems show ?case
    by (simp add: step)
qed

lemma calls_on_empty_entry:
  assumes "allowedIds \<noteq> []" and "nows \<noteq> []"
  shows "rounds (calls allowedIds interval nows initial_state) = 1
         \<and> pending (calls allowedIds interval nows initial_state) = [0]"
proof -
  from assms(2) obtain now rest where nows: "nows = now # rest" by (cases nows) auto
  have enter: "refresh_enter allowedIds interval now (entry initial_state) = StartRound"
    using assms(1) by (simp add: refresh_enter_start initial_state_def new_entry_def)
  let ?st = "snd (call_refresh allowedIds interval now initial_state)"
  note f = call_start_fields[OF enter]
  have e: "entry initial_state = new_entry" "pending initial_state = []"
    "rounds initial_state = 0" "next_promise initial_state = 0"
    by (simp_all add: initial_state_def)
  have "history (entry ?st) = None" "inflight (entry ?st) = Some 0"
    "rounds ?st = 1" "pending ?st = [0]"
    by (simp_all add: f e new_entry_def)
  with calls_after_first[OF assms(1), of ?st 0 interval rest] show ?thesis
    by (simp add: nows)
qed

text \<open>
  Claim C3. In every state the key can reach, at most one refresh is in flight. While
  one is in flight, a call of \<open>refreshHistory\<close> gets the promise of that refresh and
  starts no round of probes. While the cached history is younger than the poll interval,
  a call gets the cached history and starts no round. And any number of calls on a new
  entry, none of them resumed yet, start one round between them.
\<close>

theorem single_flight:
  assumes "reachable allowedIds interval st"
  shows "length (pending st) \<le> 1
         \<and> (\<forall>p now. p \<in> set (pending st) \<and> clock st \<le> now \<longrightarrow>
              call_refresh allowedIds interval now st = (AwaitInflight p, st \<lparr> clock := now \<rparr>)
              \<and> rounds (snd (call_refresh allowedIds interval now st)) = rounds st)
         \<and> (\<forall>h now. history (entry st) = Some h \<and> now - lastPingAt (entry st) < interval \<longrightarrow>
              call_refresh allowedIds interval now st = (ReturnCached h, st \<lparr> clock := now \<rparr>)
              \<and> rounds (snd (call_refresh allowedIds interval now st)) = rounds st)
         \<and> (\<forall>nows. allowedIds \<noteq> [] \<and> nows \<noteq> [] \<longrightarrow>
              rounds (calls allowedIds interval nows initial_state) = 1
              \<and> pending (calls allowedIds interval nows initial_state) = [0])"
proof (intro conjI allI impI)
  show "length (pending st) \<le> 1" by (rule pending_at_most_one[OF assms])
next
  fix p now
  assume h: "p \<in> set (pending st) \<and> clock st \<le> now"
  with call_while_pending[OF assms, of p now]
  show "call_refresh allowedIds interval now st = (AwaitInflight p, st \<lparr> clock := now \<rparr>)"
    by blast
  then show "rounds (snd (call_refresh allowedIds interval now st)) = rounds st" by simp
next
  fix h now
  assume c: "history (entry st) = Some h \<and> now - lastPingAt (entry st) < interval"
  with call_while_fresh[OF assms, of h now]
  show "call_refresh allowedIds interval now st = (ReturnCached h, st \<lparr> clock := now \<rparr>)"
    by blast
  then show "rounds (snd (call_refresh allowedIds interval now st)) = rounds st" by simp
next
  fix nows :: "int list"
  assume "allowedIds \<noteq> [] \<and> nows \<noteq> []"
  with calls_on_empty_entry[of allowedIds nows interval]
  show "rounds (calls allowedIds interval nows initial_state) = 1"
    and "pending (calls allowedIds interval nows initial_state) = [0]"
    by blast+
qed

lemma first_call_fields:
  "entry first_call = \<lparr> history = None, lastPingAt = 0, inflight = Some 0 \<rparr>"
  "pending first_call = [0]" "settled first_call = []" "rounds first_call = 1"
  "clock first_call = 100"
  by (simp_all add: first_call_def call_refresh_def refresh_enter_def initial_state_def
      new_entry_def lit_def)

lemma round_over_fields:
  "entry round_over = \<lparr> history = Some sample_store, lastPingAt = 300, inflight = None \<rparr>"
  "pending round_over = []" "rounds round_over = 1"
  by (simp_all add: round_over_def run_finally_def settle_def round_done_def
      refresh_finally_def first_call_fields)

text \<open>
  A second call while the first round runs awaits promise 0; a call 100 ms after the
  round has ended gets the cached history; three calls in a row start one round.
\<close>

theorem single_flight_witness:
  "pending first_call = [0]
   \<and> fst (call_refresh [lit ''a''] 60000 200 first_call) = AwaitInflight 0
   \<and> rounds (snd (call_refresh [lit ''a''] 60000 200 first_call)) = 1
   \<and> history (entry round_over) = Some sample_store
   \<and> fst (call_refresh [lit ''a''] 60000 400 round_over) = ReturnCached sample_store
   \<and> rounds (snd (call_refresh [lit ''a''] 60000 400 round_over)) = 1
   \<and> rounds (calls [lit ''a''] 60000 [100, 150, 200] initial_state) = 1"
proof -
  have r1: "reachable [lit ''a''] 60000 first_call"
    unfolding first_call_def
    by (rule reachable.call[OF reachable.start]) (simp add: initial_state_def)
  have r2: "reachable [lit ''a''] 60000 (settle 0 (Inr sample_store) 300 first_call)"
    by (rule reachable.settles[OF r1]) (simp_all add: first_call_fields)
  have r3: "reachable [lit ''a''] 60000 round_over"
    unfolding round_over_def
    by (rule reachable.finalize[OF r2]) (simp add: settle_def)
  have ids: "[lit ''a''] \<noteq> []" by simp
  from single_flight[OF r1]
  have "0 \<in> set (pending first_call) \<and> clock first_call \<le> 200 \<longrightarrow>
      call_refresh [lit ''a''] 60000 200 first_call
        = (AwaitInflight 0, first_call \<lparr> clock := 200 \<rparr>)
      \<and> rounds (snd (call_refresh [lit ''a''] 60000 200 first_call)) = rounds first_call"
    and "[lit ''a''] \<noteq> [] \<and> [100, 150, 200] \<noteq> [] \<longrightarrow>
      rounds (calls [lit ''a''] 60000 [100, 150, 200] initial_state) = 1
      \<and> pending (calls [lit ''a''] 60000 [100, 150, 200] initial_state) = [0]"
    by blast+
  then have a: "fst (call_refresh [lit ''a''] 60000 200 first_call) = AwaitInflight 0"
    "rounds (snd (call_refresh [lit ''a''] 60000 200 first_call)) = 1"
    "rounds (calls [lit ''a''] 60000 [100, 150, 200] initial_state) = 1"
    by (simp_all add: first_call_fields)
  from single_flight[OF r3]
  have "history (entry round_over) = Some sample_store
        \<and> 400 - lastPingAt (entry round_over) < 60000 \<longrightarrow>
      call_refresh [lit ''a''] 60000 400 round_over
        = (ReturnCached sample_store, round_over \<lparr> clock := 400 \<rparr>)
      \<and> rounds (snd (call_refresh [lit ''a''] 60000 400 round_over)) = rounds round_over"
    by blast
  then have b: "fst (call_refresh [lit ''a''] 60000 400 round_over) = ReturnCached sample_store"
    "rounds (snd (call_refresh [lit ''a''] 60000 400 round_over)) = 1"
    by (simp_all add: round_over_fields)
  from a b show ?thesis by (simp add: first_call_fields round_over_fields)
qed

end
